theory Spec2Isabelle
  imports Complex_Main "HOL-Library.AList" "HOL-Library.Log_Nat"
begin

section \<open>Conversation store (src/database/jsonDb.js)\<close>

text \<open>
  A time is the number of milliseconds since the epoch. \<open>new Date(x)\<close> of a missing or
  unparsable value is an Invalid Date, whose comparisons are all false: it is \<open>None\<close>.
\<close>

type_synonym jsdate = "int option"

definition dateLess :: "jsdate \<Rightarrow> int \<Rightarrow> bool" where
  "dateLess d c = (case d of None \<Rightarrow> False | Some t \<Rightarrow> t < c)"

definition dateGreater :: "jsdate \<Rightarrow> int \<Rightarrow> bool" where
  "dateGreater d c = (case d of None \<Rightarrow> False | Some t \<Rightarrow> c < t)"

record message =
  msgId :: string
  role :: string
  content :: string
  timestamp :: jsdate

record convMeta =
  firstMessageTime :: jsdate
  lastMessageTime :: jsdate
  messageCount :: nat

record conversation =
  messages :: "message list"
  metadata :: convMeta

text \<open>
  \<open>chatHistory\<close> is a JS Map from sender id to conversation: an association list in
  insertion order, \<open>Map.set\<close> being \<open>AList.update\<close> (in place for a known key, at the end
  for a new one).
\<close>

type_synonym chatHistory = "(string \<times> conversation) list"

text \<open>
  One call of \<open>addMessage\<close>. \<open>now\<close> is the clock, \<open>rnd\<close> the random suffix of the message
  id (rendered by the caller), \<open>maxChatHistory\<close> is \<open>config.bot.maxChatHistory\<close>.
  \<open>splice(0, n)\<close> removes the first \<open>n\<close> elements. The message count of the metadata is
  taken before the trim, as in the source. The store is taken as initialized.
\<close>

definition newConversation :: "int \<Rightarrow> conversation" where
  "newConversation now =
     \<lparr>messages = [],
      metadata = \<lparr>firstMessageTime = Some now, lastMessageTime = Some now, messageCount = 0\<rparr>\<rparr>"

definition pushMessage :: "int \<Rightarrow> message \<Rightarrow> conversation \<Rightarrow> conversation" where
  "pushMessage maxChatHistory m conv =
     (let pushed = messages conv @ [m];
          meta = (metadata conv)\<lparr>lastMessageTime := timestamp m, messageCount := length pushed\<rparr>;
          kept = (if int (length pushed) > maxChatHistory
                  then drop (nat (int (length pushed) - maxChatHistory)) pushed
                  else pushed)
      in \<lparr>messages = kept, metadata = meta\<rparr>)"

definition addMessage ::
  "int \<Rightarrow> int \<Rightarrow> string \<Rightarrow> string \<Rightarrow> string \<Rightarrow> string \<Rightarrow> chatHistory \<Rightarrow> string \<times> chatHistory" where
  "addMessage maxChatHistory now rnd senderId r c db =
     (let db1 = (if map_of db senderId = None
                 then AList.update senderId (newConversation now) db else db);
          conv = (case map_of db1 senderId of Some cv \<Rightarrow> cv | None \<Rightarrow> newConversation now);
          m = \<lparr>msgId = rnd, role = r, content = c, timestamp = Some now\<rparr>
      in (rnd, AList.update senderId (pushMessage maxChatHistory m conv) db1))"

text \<open>A run of appends for one sender: each element gives the clock, the id, the role and the text.\<close>

fun addMessages ::
  "int \<Rightarrow> string \<Rightarrow> (int \<times> string \<times> string \<times> string) list \<Rightarrow> chatHistory \<Rightarrow> chatHistory" where
  "addMessages maxChatHistory senderId [] db = db"
| "addMessages maxChatHistory senderId ((now, rnd, r, c) # rest) db =
     addMessages maxChatHistory senderId rest
       (snd (addMessage maxChatHistory now rnd senderId r c db))"

definition turnOf :: "int \<times> string \<times> string \<times> string \<Rightarrow> message" where
  "turnOf a = (case a of (now, rnd, r, c) \<Rightarrow>
     \<lparr>msgId = rnd, role = r, content = c, timestamp = Some now\<rparr>)"

definition storedTurns :: "chatHistory \<Rightarrow> string \<Rightarrow> message list" where
  "storedTurns db senderId = (case map_of db senderId of None \<Rightarrow> [] | Some cv \<Rightarrow> messages cv)"

text \<open>
  \<open>performCleanup\<close>. The cutoff is \<open>new Date()\<close> moved back by 30 days with \<open>setDate\<close>,
  which works on the local calendar fields: the instant is 30 days of 86400000 ms back,
  corrected by \<open>shift\<close>, the change of the local UTC offset between the two dates (0 unless
  a clock change lies in between).
\<close>

definition cutoffDate :: "int \<Rightarrow> int \<Rightarrow> int" where
  "cutoffDate now shift = now - 30 * 86400000 + shift"

text \<open>
  The loop over \<open>chatHistory.entries()\<close>; deleting the current entry of a Map while
  iterating over it is safe in JS. The result carries the two counters of the source.
\<close>

fun cleanupLoop :: "int \<Rightarrow> chatHistory \<Rightarrow> chatHistory \<times> nat \<times> nat" where
  "cleanupLoop cutoff [] = ([], 0, 0)"
| "cleanupLoop cutoff ((senderId, conv) # rest) =
     (case cleanupLoop cutoff rest of (db, cleanedConversations, cleanedMessages) \<Rightarrow>
        if dateLess (lastMessageTime (metadata conv)) cutoff \<and> length (messages conv) < 10
        then (db, cleanedConversations + 1, cleanedMessages)
        else
          (let kept = filter (\<lambda>msg. dateGreater (timestamp msg) cutoff) (messages conv)
           in ((senderId, conv\<lparr>messages := kept\<rparr>) # db,
               cleanedConversations,
               cleanedMessages + (length (messages conv) - length kept))))"

definition performCleanup :: "int \<Rightarrow> int \<Rightarrow> chatHistory \<Rightarrow> chatHistory" where
  "performCleanup now shift db = fst (cleanupLoop (cutoffDate now shift) db)"

text \<open>Whether \<open>performCleanup\<close> goes on to save: only if something was removed.\<close>

definition cleanupSaves :: "int \<Rightarrow> int \<Rightarrow> chatHistory \<Rightarrow> bool" where
  "cleanupSaves now shift db =
     (case cleanupLoop (cutoffDate now shift) db of (_, cc, cm) \<Rightarrow> cc > 0 \<or> cm > 0)"

section \<open>Rate limiter and message handler (src/services/chatbotService.js)\<close>

record userLimits =
  count :: nat
  resetTime :: int

type_synonym rateLimiter = "string \<rightharpoonup> userLimits"

text \<open>
  \<open>isRateLimited\<close> mutates the object it got from the Map, so a reset persists for a known
  user; for an unknown user the fresh object is dropped and the Map stays as it was.
\<close>

definition isRateLimited :: "int \<Rightarrow> string \<Rightarrow> rateLimiter \<Rightarrow> bool \<times> rateLimiter" where
  "isRateLimited now userId rl =
     (let known = (rl userId \<noteq> None);
          userLimits = (case rl userId of Some u \<Rightarrow> u | None \<Rightarrow> \<lparr>count = 0, resetTime = now\<rparr>);
          userLimits' = (if now > resetTime userLimits
                         then userLimits\<lparr>count := 0, resetTime := now + 60000\<rparr>
                         else userLimits);
          rl' = (if known then rl(userId \<mapsto> userLimits') else rl)
      in (count userLimits' \<ge> 10, rl'))"

definition updateRateLimit :: "int \<Rightarrow> string \<Rightarrow> rateLimiter \<Rightarrow> rateLimiter" where
  "updateRateLimit now userId rl =
     (let userLimits = (case rl userId of Some u \<Rightarrow> u
                        | None \<Rightarrow> \<lparr>count = 0, resetTime = now + 60000\<rparr>)
      in rl(userId \<mapsto> userLimits\<lparr>count := count userLimits + 1\<rparr>))"

text \<open>\<open>String.prototype.includes\<close> and \<open>toLowerCase\<close> (on ASCII letters).\<close>

fun startsWith :: "string \<Rightarrow> string \<Rightarrow> bool" where
  "startsWith s [] = True"
| "startsWith [] (p # ps) = False"
| "startsWith (c # cs) (p # ps) = (c = p \<and> startsWith cs ps)"

fun strIncludes :: "string \<Rightarrow> string \<Rightarrow> bool" where
  "strIncludes [] p = (p = [])"
| "strIncludes (c # cs) p = (startsWith (c # cs) p \<or> strIncludes cs p)"

definition lowerChar :: "char \<Rightarrow> char" where
  "lowerChar c = (let n = (of_char c :: nat) in if 65 \<le> n \<and> n \<le> 90 then char_of (n + 32) else c)"

definition toLowerCase :: "string \<Rightarrow> string" where
  "toLowerCase s = map lowerChar s"

record messageInfo =
  sender :: string
  senderName :: string
  msgText :: string
  isGroup :: bool

text \<open>
  What the world does while one message is handled: the two clock readings of the rate
  limiter, the first error thrown inside the \<open>try\<close> block of \<open>_handleSingleMessage\<close> (storing,
  generating, sending), and the error thrown by \<open>whatsappClient.sendMessage\<close> when the
  \<open>catch\<close> block sends the apology (it throws when the client is not connected and after
  three failed sends).
\<close>

record handleEnv =
  tCheck :: int
  tUpdate :: int
  bodyError :: "string option"
  apologyError :: "string option"

text \<open>
  How \<open>_handleSingleMessage\<close> ends when it returns: \<open>Skipped\<close> is the group message that
  does not name the bot, \<open>Dropped\<close> the rate-limited message (both return before anything
  is stored or sent), \<open>Replied\<close> the completed \<open>try\<close> block, \<open>Apologised\<close> the completed
  \<open>catch\<close> block. An error thrown inside the \<open>catch\<close> block leaves the function: \<open>Inl\<close>.
\<close>

datatype outcome = Skipped | Dropped | Replied | Apologised

definition handleSingleMessage ::
  "string \<Rightarrow> messageInfo \<Rightarrow> handleEnv \<Rightarrow> rateLimiter \<Rightarrow> (string + outcome) \<times> rateLimiter" where
  "handleSingleMessage botName m env rl =
     (if isGroup m \<and> \<not> strIncludes (toLowerCase (msgText m)) (toLowerCase botName)
      then (Inr Skipped, rl)
      else
        (case isRateLimited (tCheck env) (sender m) rl of (limited, rl1) \<Rightarrow>
           if limited then (Inr Dropped, rl1)
           else
             (let rl2 = updateRateLimit (tUpdate env) (sender m) rl1
              in case bodyError env of
                   None \<Rightarrow> (Inr Replied, rl2)
                 | Some err \<Rightarrow>
                     (case apologyError env of
                        None \<Rightarrow> (Inr Apologised, rl2)
                      | Some err' \<Rightarrow> (Inl err', rl2)))))"

text \<open>The messages of one sender handled one after the other, as a worker does.\<close>

fun handleAll ::
  "string \<Rightarrow> (messageInfo \<times> handleEnv) list \<Rightarrow> rateLimiter \<Rightarrow> (string + outcome) list \<times> rateLimiter" where
  "handleAll botName [] rl = ([], rl)"
| "handleAll botName ((m, env) # rest) rl =
     (case handleSingleMessage botName m env rl of (res, rl1) \<Rightarrow>
        (case handleAll botName rest rl1 of (ress, rl2) \<Rightarrow> (res # ress, rl2)))"

section \<open>Dispatcher (src/services/chatbotService.js)\<close>

text \<open>
  The service state. \<open>workers\<close> are the suspended invocations of \<open>_processQueue\<close>: each has
  its sender and the message whose \<open>_handleSingleMessage\<close> it awaits. \<open>started\<close> logs every
  call of \<open>_processQueue\<close>, \<open>handled\<close> every settled \<open>_handleSingleMessage\<close>. Code between
  two \<open>await\<close>s runs without interruption (one JS thread), so each definition below is one
  uninterrupted piece of the source.
\<close>

record chatbotService =
  botName :: string
  processingMessages :: "string set"
  messageQueue :: "string \<rightharpoonup> messageInfo list"
  rateLimiter :: rateLimiter
  workers :: "(string \<times> messageInfo) list"
  started :: "string list"
  handled :: "(messageInfo \<times> (string + outcome)) list"

definition newService :: "string \<Rightarrow> chatbotService" where
  "newService bn =
     \<lparr>botName = bn, processingMessages = {}, messageQueue = Map.empty, rateLimiter = Map.empty,
      workers = [], started = [], handled = []\<rparr>"

text \<open>The \<open>finally\<close> block of \<open>_processQueue\<close>.\<close>

definition finallyBlock :: "string \<Rightarrow> chatbotService \<Rightarrow> chatbotService" where
  "finallyBlock s svc =
     svc\<lparr>processingMessages := processingMessages svc - {s},
         messageQueue := (messageQueue svc)(s := None)\<rparr>"

text \<open>
  The head of the \<open>while\<close> loop: with a message queued, shift it and suspend on its
  handling; otherwise leave the loop and run the \<open>finally\<close> block.
\<close>

definition whileLoop :: "string \<Rightarrow> chatbotService \<Rightarrow> chatbotService" where
  "whileLoop s svc =
     (case messageQueue svc s of
        Some (m # q) \<Rightarrow>
          svc\<lparr>messageQueue := (messageQueue svc)(s \<mapsto> q), workers := workers svc @ [(s, m)]\<rparr>
      | _ \<Rightarrow> finallyBlock s svc)"

definition processQueue :: "string \<Rightarrow> chatbotService \<Rightarrow> chatbotService" where
  "processQueue s svc =
     whileLoop s (svc\<lparr>processingMessages := insert s (processingMessages svc),
                      started := started svc @ [s]\<rparr>)"

definition queueMessage :: "messageInfo \<Rightarrow> chatbotService \<Rightarrow> chatbotService" where
  "queueMessage m svc =
     (let s = sender m;
          q = (case messageQueue svc s of None \<Rightarrow> [] | Some q \<Rightarrow> q);
          svc1 = svc\<lparr>messageQueue := (messageQueue svc)(s \<mapsto> q @ [m])\<rparr>
      in if s \<notin> processingMessages svc1 then processQueue s svc1 else svc1)"

text \<open>
  The awaited \<open>_handleSingleMessage\<close> of worker \<open>i\<close> settles. When it returned, the worker
  goes round the loop; when it threw, the \<open>catch\<close> of \<open>_processQueue\<close>, which is outside
  the loop, logs the error and the \<open>finally\<close> block runs. The handling touches the rate
  limiter under its own sender only, so its effect is applied here, where it settles.
  A step for a worker that does not exist changes nothing.
\<close>

definition settle :: "nat \<Rightarrow> handleEnv \<Rightarrow> chatbotService \<Rightarrow> chatbotService" where
  "settle i env svc =
     (if i < length (workers svc) then
        (case workers svc ! i of (s, m) \<Rightarrow>
           (case handleSingleMessage (botName svc) m env (rateLimiter svc) of (res, rl') \<Rightarrow>
              (let svc1 = svc\<lparr>workers := take i (workers svc) @ drop (Suc i) (workers svc),
                               rateLimiter := rl',
                               handled := handled svc @ [(m, res)]\<rparr>
               in case res of Inr _ \<Rightarrow> whileLoop s svc1 | Inl err \<Rightarrow> finallyBlock s svc1)))
      else svc)"

datatype event = Arrive messageInfo | Settle nat handleEnv

fun step :: "chatbotService \<Rightarrow> event \<Rightarrow> chatbotService" where
  "step svc (Arrive m) = queueMessage m svc"
| "step svc (Settle i env) = settle i env svc"

definition run :: "string \<Rightarrow> event list \<Rightarrow> chatbotService" where
  "run bn evs = foldl step (newService bn) evs"

definition activeWorkers :: "chatbotService \<Rightarrow> string \<Rightarrow> nat" where
  "activeWorkers svc s = length (filter (\<lambda>w. fst w = s) (workers svc))"

definition pendingOf :: "chatbotService \<Rightarrow> string \<Rightarrow> messageInfo list" where
  "pendingOf svc s =
     map snd (filter (\<lambda>w. fst w = s) (workers svc))
       @ (case messageQueue svc s of None \<Rightarrow> [] | Some q \<Rightarrow> q)"

text \<open>
  The invariant of the dispatcher: no two workers have the same sender, the active
  markers are the senders of the workers, and a queue exists only for a sender with a
  worker.
\<close>

definition dispatcherInv :: "chatbotService \<Rightarrow> bool" where
  "dispatcherInv svc =
     (distinct (map fst (workers svc))
      \<and> processingMessages svc = set (map fst (workers svc))
      \<and> (\<forall>s. messageQueue svc s \<noteq> None \<longrightarrow> s \<in> processingMessages svc))"

section \<open>AI backend client (src/gemini/geminiClient.js)\<close>

text \<open>
  The client state: the \<open>index\<close> of every registered client in registration order, and
  the three Maps of counters. JS numbers are IEEE 754 doubles. Counts and clock readings
  are integers below \<open>2 ^ 53\<close>, which doubles hold exactly: they are naturals and integers
  here. A score is a double, that is a rational, computed with one rounding after each
  operation.
\<close>

record geminiClient =
  clients :: "nat list"
  requestCounts :: "nat \<rightharpoonup> nat"
  errorCounts :: "nat \<rightharpoonup> nat"
  lastRequestTimes :: "nat \<rightharpoonup> int"

definition initializeClients :: "nat \<Rightarrow> geminiClient" where
  "initializeClients n =
     \<lparr>clients = [0..<n],
      requestCounts = (\<lambda>i. if i < n then Some 0 else None),
      errorCounts = (\<lambda>i. if i < n then Some 0 else None),
      lastRequestTimes = (\<lambda>i. if i < n then Some 0 else None)\<rparr>"

text \<open>\<open>m.get(k) || 0\<close>\<close>

definition orZero :: "'a::zero option \<Rightarrow> 'a" where
  "orZero v = (case v of None \<Rightarrow> 0 | Some n \<Rightarrow> n)"

text \<open>
  \<open>dbl x\<close> is the double nearest to the rational \<open>x\<close>, ties to the even significand
  (the rounding of every arithmetic operation of JS). \<open>exponentOf x\<close> is the \<open>e\<close> with
  \<open>2 ^ e \<le> x < 2 ^ (e + 1)\<close> for positive \<open>x\<close>; a double has 53 significant bits, and
  below \<open>2 ^ - 1022\<close> the spacing of the subnormal doubles. Overflow to \<open>Infinity\<close>, from
  \<open>2 ^ 1024\<close> on, is not modelled.
\<close>

definition exponentOf :: "rat \<Rightarrow> int" where
  "exponentOf x =
     (case quotient_of x of (p, q) \<Rightarrow>
        (let k = int (floorlog 2 (nat p)) - int (floorlog 2 (nat q))
         in if 2 powi k \<le> x then k else k - 1))"

definition roundHalfEven :: "rat \<Rightarrow> int" where
  "roundHalfEven y =
     (let f = \<lfloor>y\<rfloor>; d = y - of_int f
      in if d < 1 / 2 then f else if 1 / 2 < d then f + 1 else if even f then f else f + 1)"

definition dbl :: "rat \<Rightarrow> rat" where
  "dbl x =
     (if x = 0 then 0
      else (let u = 2 powi (max (exponentOf \<bar>x\<bar>) (- 1022) - 52)
            in sgn x * of_int (roundHalfEven (\<bar>x\<bar> / u)) * u))"

definition score :: "int \<Rightarrow> geminiClient \<Rightarrow> nat \<Rightarrow> rat" where
  "score now g idx =
     (let requestCount = orZero (requestCounts g idx);
          errorCount = orZero (errorCounts g idx);
          lastRequestTime = orZero (lastRequestTimes g idx);
          errorRate = (if requestCount > 0 then dbl (of_nat errorCount / of_nat requestCount)
                       else 0);
          timeSinceLastRequest = now - lastRequestTime
      in dbl (dbl (dbl (1 - errorRate) * 100)
              + min (dbl (of_int timeSinceLastRequest / 1000)) 60))"

fun bestLoop :: "int \<Rightarrow> geminiClient \<Rightarrow> nat list \<Rightarrow> nat option \<times> rat \<Rightarrow> nat option \<times> rat" where
  "bestLoop now g [] best = best"
| "bestLoop now g (c # cs) (bestClient, bestScore) =
     (if score now g c > bestScore then bestLoop now g cs (Some c, score now g c)
      else bestLoop now g cs (bestClient, bestScore))"

text \<open>\<open>this.clients[0]\<close> of an empty array is \<open>undefined\<close>: \<open>None\<close>.\<close>

definition getBestClient :: "int \<Rightarrow> geminiClient \<Rightarrow> nat option" where
  "getBestClient now g =
     fst (bestLoop now g (clients g) (case clients g of [] \<Rightarrow> None | c # _ \<Rightarrow> Some c, - 1))"

definition updateRequestCount :: "nat \<Rightarrow> geminiClient \<Rightarrow> geminiClient" where
  "updateRequestCount clientIndex g =
     g\<lparr>requestCounts := (requestCounts g)(clientIndex \<mapsto> orZero (requestCounts g clientIndex) + 1)\<rparr>"

definition updateErrorCount :: "nat \<Rightarrow> geminiClient \<Rightarrow> geminiClient" where
  "updateErrorCount clientIndex g =
     g\<lparr>errorCounts := (errorCounts g)(clientIndex \<mapsto> orZero (errorCounts g clientIndex) + 1)\<rparr>"

definition updateLastRequestTime :: "int \<Rightarrow> nat \<Rightarrow> geminiClient \<Rightarrow> geminiClient" where
  "updateLastRequestTime now clientIndex g =
     g\<lparr>lastRequestTimes := (lastRequestTimes g)(clientIndex \<mapsto> now)\<rparr>"

definition retryableErrors :: "string list" where
  "retryableErrors =
     [''Request timeout'', ''RATE_LIMIT_EXCEEDED'', ''INTERNAL'', ''UNAVAILABLE'',
      ''DEADLINE_EXCEEDED'', ''Internal error'', ''Service temporarily unavailable'']"

definition isRetryableError :: "string \<Rightarrow> bool" where
  "isRetryableError errorMessage = list_ex (strIncludes errorMessage) retryableErrors"

text \<open>
  \<open>!responseText || responseText.trim().length === 0\<close>: the text is empty, or \<open>trim\<close>
  leaves nothing of it, which is when it consists of white space and line terminators
  only. A text is the UTF-8 byte string of the JS string, and \<open>jsWhiteSpace\<close> lists the
  encodings of the code points that \<open>trim\<close> removes: U+0009 to U+000D, U+0020, U+00A0,
  U+1680, U+2000 to U+200A, U+2028, U+2029, U+202F, U+205F, U+3000 and U+FEFF.
\<close>

definition jsWhiteSpace :: "string list" where
  "jsWhiteSpace =
     [[CHR 0x09], [CHR 0x0A], [CHR 0x0B], [CHR 0x0C], [CHR 0x0D], [CHR 0x20],
      [CHR 0xC2, CHR 0xA0],
      [CHR 0xE1, CHR 0x9A, CHR 0x80],
      [CHR 0xE2, CHR 0x80, CHR 0x80], [CHR 0xE2, CHR 0x80, CHR 0x81],
      [CHR 0xE2, CHR 0x80, CHR 0x82], [CHR 0xE2, CHR 0x80, CHR 0x83],
      [CHR 0xE2, CHR 0x80, CHR 0x84], [CHR 0xE2, CHR 0x80, CHR 0x85],
      [CHR 0xE2, CHR 0x80, CHR 0x86], [CHR 0xE2, CHR 0x80, CHR 0x87],
      [CHR 0xE2, CHR 0x80, CHR 0x88], [CHR 0xE2, CHR 0x80, CHR 0x89],
      [CHR 0xE2, CHR 0x80, CHR 0x8A],
      [CHR 0xE2, CHR 0x80, CHR 0xA8], [CHR 0xE2, CHR 0x80, CHR 0xA9],
      [CHR 0xE2, CHR 0x80, CHR 0xAF],
      [CHR 0xE2, CHR 0x81, CHR 0x9F],
      [CHR 0xE3, CHR 0x80, CHR 0x80],
      [CHR 0xEF, CHR 0xBB, CHR 0xBF]]"

function isBlank :: "string \<Rightarrow> bool" where
  "isBlank [] = True"
| "isBlank (c # cs) =
     list_ex (\<lambda>w. if startsWith (c # cs) w \<and> w \<noteq> []
                  then isBlank (drop (length w) (c # cs)) else False)
       jsWhiteSpace"
  by pat_completeness auto
termination
  by (relation "measure length") auto

text \<open>
  What the backend does on one attempt: the clock when the client is selected, what the
  race of \<open>chat.sendMessage\<close> against the timeout yields (a response text, or an error with
  its message; the timeout is the error \<open>Request timeout\<close>), and the clock when it settles.
\<close>

datatype backendOutcome = Text string | Throws string

record attemptEnv =
  tSelect :: int
  response :: backendOutcome
  tSettle :: int

text \<open>The \<open>try\<close> block up to the validation of the response: the text, or the error thrown.\<close>

definition attemptResult :: "backendOutcome \<Rightarrow> string + string" where
  "attemptResult r =
     (case r of
        Text t \<Rightarrow> if isBlank t then Inl ''Empty response from Gemini'' else Inr t
      | Throws msg \<Rightarrow> Inl msg)"

datatype gevent = Request nat nat | Sleep int

text \<open>
  How one round of the \<open>for\<close> loop ends: \<open>return\<close>, an error thrown out of the \<open>catch\<close>
  block (a \<open>TypeError\<close>, with no client registered), \<open>break\<close>, or the next round; the last
  two carry \<open>lastError\<close>. \<open>Request attempt idx\<close> records the request of this attempt and the
  client that issued it.
\<close>

datatype control = Return string | Raise string | Break string | Continue string

definition attemptBody ::
  "int \<Rightarrow> int \<Rightarrow> attemptEnv \<Rightarrow> nat \<Rightarrow> geminiClient \<Rightarrow> control \<times> geminiClient \<times> gevent list" where
  "attemptBody retryDelay retries e attempt g =
     (case getBestClient (tSelect e) g of
        None \<Rightarrow> (Raise ''TypeError'', g, [])
      | Some client \<Rightarrow>
          (let g1 = updateRequestCount client g in
           case attemptResult (response e) of
             Inr responseText \<Rightarrow>
               (Return responseText, updateLastRequestTime (tSettle e) client g1,
                [Request attempt client])
           | Inl msg \<Rightarrow>
               (case getBestClient (tSettle e) g1 of
                  None \<Rightarrow> (Raise ''TypeError'', g1, [Request attempt client])
                | Some currentClient \<Rightarrow>
                    (let g2 = updateErrorCount currentClient g1 in
                     if \<not> isRetryableError msg \<and> int attempt = retries
                     then (Break msg, g2, [Request attempt client])
                     else (Continue msg, g2,
                           Request attempt client #
                             (if int attempt < retries then [Sleep (retryDelay * 2 ^ attempt)]
                              else []))))))"

text \<open>After the loop: \<open>Gemini request failed: \<close> and the message of the last error.\<close>

definition allFailed :: "string option \<Rightarrow> string" where
  "allFailed lastError =
     ''Gemini request failed: '' @
       (case lastError of None \<Rightarrow> ''Unknown error''
        | Some msg \<Rightarrow> if msg = [] then ''Unknown error'' else msg)"

function generateLoop ::
  "int \<Rightarrow> int \<Rightarrow> (nat \<Rightarrow> attemptEnv) \<Rightarrow> nat \<Rightarrow> string option \<Rightarrow> geminiClient \<Rightarrow> gevent list
     \<Rightarrow> (string + string) \<times> geminiClient \<times> gevent list" where
  "generateLoop retryDelay retries env attempt lastError g tr =
     (if int attempt \<le> retries then
        (case attemptBody retryDelay retries (env attempt) attempt g of (ctl, g', evs) \<Rightarrow>
           (case ctl of
              Return responseText \<Rightarrow> (Inr responseText, g', tr @ evs)
            | Raise msg \<Rightarrow> (Inl msg, g', tr @ evs)
            | Break msg \<Rightarrow> (Inl (allFailed (Some msg)), g', tr @ evs)
            | Continue msg \<Rightarrow>
                generateLoop retryDelay retries env (Suc attempt) (Some msg) g' (tr @ evs)))
      else (Inl (allFailed lastError), g, tr))"
  by pat_completeness auto
termination
  by (relation "measure (\<lambda>(retryDelay, retries, env, attempt, lastError, g, tr).
        nat (retries + 1 - int attempt))") auto

text \<open>
  \<open>generateContent\<close>: \<open>maxRetries || config.gemini.maxRetries\<close> takes the configured value
  for \<open>null\<close> and for 0. \<open>env\<close> gives the backend's behaviour on each attempt.
\<close>

definition retriesOf :: "int \<Rightarrow> int option \<Rightarrow> int" where
  "retriesOf cfgMaxRetries maxRetries =
     (case maxRetries of None \<Rightarrow> cfgMaxRetries | Some n \<Rightarrow> if n = 0 then cfgMaxRetries else n)"

definition generateContent ::
  "int \<Rightarrow> int \<Rightarrow> int option \<Rightarrow> (nat \<Rightarrow> attemptEnv) \<Rightarrow> geminiClient
     \<Rightarrow> (string + string) \<times> geminiClient \<times> gevent list" where
  "generateContent cfgMaxRetries cfgRetryDelay maxRetries env g =
     generateLoop cfgRetryDelay (retriesOf cfgMaxRetries maxRetries) env 0 None g []"

fun requestsOf :: "gevent list \<Rightarrow> nat list" where
  "requestsOf [] = []"
| "requestsOf (Request attempt idx # tr) = attempt # requestsOf tr"
| "requestsOf (Sleep d # tr) = requestsOf tr"

fun sleepsOf :: "gevent list \<Rightarrow> int list" where
  "sleepsOf [] = []"
| "sleepsOf (Request attempt idx # tr) = sleepsOf tr"
| "sleepsOf (Sleep d # tr) = d # sleepsOf tr"

text \<open>
  The order of requests and sleeps in a trace, without the clients: \<open>Inl attempt\<close> for a
  request, \<open>Inr delay\<close> for a sleep. \<open>retrySchedule d a n\<close> is the course of \<open>n\<close> failed
  attempts from attempt \<open>a\<close> on, each followed by its sleep of \<open>d * 2 ^ attempt\<close>.
\<close>

definition timeline :: "gevent list \<Rightarrow> (nat + int) list" where
  "timeline tr = map (\<lambda>ev. case ev of Request attempt idx \<Rightarrow> Inl attempt | Sleep d \<Rightarrow> Inr d) tr"

definition retrySchedule :: "int \<Rightarrow> nat \<Rightarrow> nat \<Rightarrow> (nat + int) list" where
  "retrySchedule d a n = concat (map (\<lambda>j. [Inl j, Inr (d * 2 ^ j)]) [a..<a + n])"

definition failed :: "(nat \<Rightarrow> attemptEnv) \<Rightarrow> nat \<Rightarrow> bool" where
  "failed env j = (case attemptResult (response (env j)) of Inl msg \<Rightarrow> True | Inr t \<Rightarrow> False)"

text \<open>
  The score as the specification words it, for comparison with \<open>score\<close>:
  \<open>(1 - errorRate) * 100 + min(secondsSinceLastUse, 60)\<close> with
  \<open>errorRate = errorCount / max(requestCount, 1)\<close>, in the same double arithmetic.
\<close>

definition specScore :: "int \<Rightarrow> geminiClient \<Rightarrow> nat \<Rightarrow> rat" where
  "specScore now g idx =
     (let errorRate = dbl (of_nat (orZero (errorCounts g idx))
                            / of_nat (max (orZero (requestCounts g idx)) 1))
      in dbl (dbl (dbl (1 - errorRate) * 100)
              + min (dbl (of_int (now - orZero (lastRequestTimes g idx)) / 1000)) 60))"

section \<open>Bounded history\<close>

lemma storedTurns_addMessage:
  "storedTurns (snd (addMessage mx now rnd s r c db)) s =
     (let pushed = storedTurns db s @ [turnOf (now, rnd, r, c)]
      in if int (length pushed) > mx then drop (nat (int (length pushed) - mx)) pushed else pushed)"
  by (simp add: addMessage_def storedTurns_def pushMessage_def turnOf_def newConversation_def
      Let_def update_conv' split: option.splits)

lemma storedTurns_addMessage_drop:
  assumes "0 \<le> mx"
  shows "storedTurns (snd (addMessage mx now rnd s r c db)) s =
     drop (Suc (length (storedTurns db s)) - nat mx) (storedTurns db s @ [turnOf (now, rnd, r, c)])"
proof -
  have "nat (1 + int (length (storedTurns db s)) - mx) = Suc (length (storedTurns db s)) - nat mx"
    using assms by linarith
  moreover have "\<not> 1 + int (length (storedTurns db s)) > mx \<Longrightarrow>
     Suc (length (storedTurns db s)) - nat mx = 0"
    using assms by linarith
  ultimately show ?thesis
    unfolding storedTurns_addMessage Let_def by (simp del: drop_append)
qed

lemma storedTurns_addMessages:
  assumes "0 \<le> mx" and "length (storedTurns db s) \<le> nat mx"
  shows "storedTurns (addMessages mx s xs db) s =
     drop (length (storedTurns db s) + length xs - nat mx) (storedTurns db s @ map turnOf xs)"
  using assms
proof (induction xs arbitrary: db)
  case Nil
  then show ?case by simp
next
  case (Cons x xs)
  obtain now rnd r c where x: "x = (now, rnd, r, c)" by (cases x) auto
  let ?db = "snd (addMessage mx now rnd s r c db)"
  let ?old = "storedTurns db s"
  have st: "storedTurns ?db s = drop (Suc (length ?old) - nat mx) (?old @ [turnOf x])"
    using storedTurns_addMessage_drop[OF Cons.prems(1)] x by simp
  then have len: "length (storedTurns ?db s) \<le> nat mx"
    using Cons.prems(2) by simp
  have "storedTurns (addMessages mx s (x # xs) db) s = storedTurns (addMessages mx s xs ?db) s"
    by (simp add: x)
  also have "\<dots> = drop (length (storedTurns ?db s) + length xs - nat mx)
                     (storedTurns ?db s @ map turnOf xs)"
    by (rule Cons.IH[OF Cons.prems(1) len])
  also have "\<dots> = drop (length ?old + length (x # xs) - nat mx) (?old @ map turnOf (x # xs))"
  proof (cases "Suc (length ?old) \<le> nat mx")
    case True
    then show ?thesis unfolding st by simp
  next
    case False
    with Cons.prems(2) have eq: "length ?old = nat mx" by simp
    have d1: "drop (Suc (length ?old) - nat mx) (?old @ [turnOf x]) @ map turnOf xs
                = drop 1 (?old @ turnOf x # map turnOf xs)"
      using eq by (cases ?old) simp_all
    have l1: "length (drop (Suc (length ?old) - nat mx) (?old @ [turnOf x])) = nat mx"
      using eq by simp
    have a: "nat mx + length xs - nat mx = length xs" by simp
    have b: "length ?old + length (x # xs) - nat mx = length xs + 1" using eq by simp
    show ?thesis unfolding st d1 l1 a b by (simp only: drop_drop list.map)
  qed
  finally show ?case .
qed

text \<open>
  C8. For a sender with no stored turns and a configured maximum \<open>maxChatHistory \<ge> 0\<close>,
  appending \<open>maxChatHistory + 5\<close> turns one at a time with \<open>addMessage\<close> leaves exactly
  \<open>maxChatHistory\<close> stored turns: the turns appended, in the order of their appending,
  without the 5 oldest.
\<close>

theorem addMessage_bounded_history:
  assumes "0 \<le> maxChatHistory"
    and "storedTurns db senderId = []"
    and "length turns = nat maxChatHistory + 5"
  shows "storedTurns (addMessages maxChatHistory senderId turns db) senderId
           = drop 5 (map turnOf turns)
         \<and> length (storedTurns (addMessages maxChatHistory senderId turns db) senderId)
             = nat maxChatHistory"
proof -
  have "storedTurns (addMessages maxChatHistory senderId turns db) senderId
          = drop (length turns - nat maxChatHistory) (map turnOf turns)"
    using storedTurns_addMessages[of maxChatHistory db senderId turns] assms(1,2) by simp
  then show ?thesis using assms(3) by simp
qed

theorem addMessage_bounded_history_witness:
  "storedTurns (addMessages 2 ''u''
       [(1, ''a'', ''user'', ''t1''), (2, ''b'', ''assistant'', ''t2''), (3, ''c'', ''user'', ''t3''),
        (4, ''d'', ''assistant'', ''t4''), (5, ''e'', ''user'', ''t5''), (6, ''f'', ''assistant'', ''t6''),
        (7, ''g'', ''user'', ''t7'')] []) ''u''
     = [\<lparr>msgId = ''f'', role = ''assistant'', content = ''t6'', timestamp = Some 6\<rparr>,
        \<lparr>msgId = ''g'', role = ''user'', content = ''t7'', timestamp = Some 7\<rparr>]"
  using addMessage_bounded_history[of 2 "[]" "''u''"
      "[(1, ''a'', ''user'', ''t1''), (2, ''b'', ''assistant'', ''t2''), (3, ''c'', ''user'', ''t3''),
        (4, ''d'', ''assistant'', ''t4''), (5, ''e'', ''user'', ''t5''), (6, ''f'', ''assistant'', ''t6''),
        (7, ''g'', ''user'', ''t7'')]"]
  by (simp add: storedTurns_def turnOf_def)

section \<open>Retention cleanup\<close>

lemma cleanupLoop_keys: "set (map fst (fst (cleanupLoop cutoff db))) \<subseteq> set (map fst db)"
proof (induction db)
  case Nil
  then show ?case by simp
next
  case (Cons p db)
  obtain k conv where p: "p = (k, conv)" by (cases p)
  obtain db' cc cm where r: "cleanupLoop cutoff db = (db', cc, cm)" by (cases "cleanupLoop cutoff db")
  from Cons r have "set (map fst db') \<subseteq> set (map fst db)" by simp
  then show ?case by (auto simp: p r Let_def)
qed

lemma cleanupLoop_map_of:
  assumes "distinct (map fst db)"
  shows "map_of (fst (cleanupLoop cutoff db)) s =
     (case map_of db s of None \<Rightarrow> None
      | Some conv \<Rightarrow>
          if dateLess (lastMessageTime (metadata conv)) cutoff \<and> length (messages conv) < 10
          then None
          else Some (conv\<lparr>messages :=
                 filter (\<lambda>msg. dateGreater (timestamp msg) cutoff) (messages conv)\<rparr>))"
  using assms
proof (induction db)
  case Nil
  then show ?case by simp
next
  case (Cons p db)
  obtain k conv where p: "p = (k, conv)" by (cases p)
  obtain db' cc cm where r: "cleanupLoop cutoff db = (db', cc, cm)" by (cases "cleanupLoop cutoff db")
  have ih: "map_of db' s = (case map_of db s of None \<Rightarrow> None
      | Some conv \<Rightarrow>
          if dateLess (lastMessageTime (metadata conv)) cutoff \<and> length (messages conv) < 10
          then None
          else Some (conv\<lparr>messages :=
                 filter (\<lambda>msg. dateGreater (timestamp msg) cutoff) (messages conv)\<rparr>))"
    using Cons r by simp
  have nk: "k \<notin> fst ` set db'" using cleanupLoop_keys[of cutoff db] r Cons.prems p by auto
  then have nk': "map_of db' k = None" by (simp add: map_of_eq_None_iff)
  show ?case
  proof (cases "s = k")
    case True
    then show ?thesis using nk' by (simp add: p r Let_def)
  next
    case False
    then show ?thesis using ih by (simp add: p r Let_def)
  qed
qed

text \<open>
  C9. Retention cleanup deletes a stored conversation if and only if its last-turn time
  is older than the horizon of 30 days and it has fewer than 10 turns. (The witness is
  the pair of the claim: last touched 31 days ago, 3 turns deleted, 15 turns retained.)
\<close>

theorem performCleanup_deletes_iff:
  assumes "distinct (map fst db)" and "map_of db senderId = Some conv"
  shows "(map_of (performCleanup now shift db) senderId = None)
           = ((\<exists>t. lastMessageTime (metadata conv) = Some t \<and> t < now - 30 * 86400000 + shift)
              \<and> length (messages conv) < 10)"
  using assms
  by (auto simp: performCleanup_def cleanupLoop_map_of cutoffDate_def dateLess_def
      split: option.splits)

theorem performCleanup_deletes_iff_witness:
  "map_of (performCleanup 3456000000 0
      [(''a'', \<lparr>messages = replicate 3 \<lparr>msgId = ''m'', role = ''user'', content = ''hi'',
                                       timestamp = Some 777600000\<rparr>,
               metadata = \<lparr>firstMessageTime = Some 777600000,
                           lastMessageTime = Some (3456000000 - 31 * 86400000),
                           messageCount = 3\<rparr>\<rparr>),
       (''b'', \<lparr>messages = replicate 15 \<lparr>msgId = ''m'', role = ''user'', content = ''hi'',
                                        timestamp = Some 777600000\<rparr>,
               metadata = \<lparr>firstMessageTime = Some 777600000,
                           lastMessageTime = Some (3456000000 - 31 * 86400000),
                           messageCount = 15\<rparr>\<rparr>)]) ''a'' = None
   \<and> map_of (performCleanup 3456000000 0
      [(''a'', \<lparr>messages = replicate 3 \<lparr>msgId = ''m'', role = ''user'', content = ''hi'',
                                       timestamp = Some 777600000\<rparr>,
               metadata = \<lparr>firstMessageTime = Some 777600000,
                           lastMessageTime = Some (3456000000 - 31 * 86400000),
                           messageCount = 3\<rparr>\<rparr>),
       (''b'', \<lparr>messages = replicate 15 \<lparr>msgId = ''m'', role = ''user'', content = ''hi'',
                                        timestamp = Some 777600000\<rparr>,
               metadata = \<lparr>firstMessageTime = Some 777600000,
                           lastMessageTime = Some (3456000000 - 31 * 86400000),
                           messageCount = 15\<rparr>\<rparr>)]) ''b'' \<noteq> None"
  using
    performCleanup_deletes_iff[of
      "[(''a'', \<lparr>messages = replicate 3 \<lparr>msgId = ''m'', role = ''user'', content = ''hi'',
                                       timestamp = Some 777600000\<rparr>,
               metadata = \<lparr>firstMessageTime = Some 777600000,
                           lastMessageTime = Some (3456000000 - 31 * 86400000),
                           messageCount = 3\<rparr>\<rparr>),
       (''b'', \<lparr>messages = replicate 15 \<lparr>msgId = ''m'', role = ''user'', content = ''hi'',
                                        timestamp = Some 777600000\<rparr>,
               metadata = \<lparr>firstMessageTime = Some 777600000,
                           lastMessageTime = Some (3456000000 - 31 * 86400000),
                           messageCount = 15\<rparr>\<rparr>)]" "''a''" _ 3456000000 0]
    performCleanup_deletes_iff[of
      "[(''a'', \<lparr>messages = replicate 3 \<lparr>msgId = ''m'', role = ''user'', content = ''hi'',
                                       timestamp = Some 777600000\<rparr>,
               metadata = \<lparr>firstMessageTime = Some 777600000,
                           lastMessageTime = Some (3456000000 - 31 * 86400000),
                           messageCount = 3\<rparr>\<rparr>),
       (''b'', \<lparr>messages = replicate 15 \<lparr>msgId = ''m'', role = ''user'', content = ''hi'',
                                        timestamp = Some 777600000\<rparr>,
               metadata = \<lparr>firstMessageTime = Some 777600000,
                           lastMessageTime = Some (3456000000 - 31 * 86400000),
                           messageCount = 15\<rparr>\<rparr>)]" "''b''" _ 3456000000 0]
  by simp

text \<open>
  C10. In a conversation that cleanup retains, the messages kept are exactly those whose
  timestamp is newer than the 30-day cutoff, in their order; every message older than
  the cutoff is removed, and when all messages are older than the cutoff the retained
  conversation has an empty message list.
\<close>

theorem performCleanup_retained_messages:
  assumes "distinct (map fst db)" and "map_of db senderId = Some conv"
    and "map_of (performCleanup now shift db) senderId \<noteq> None"
  shows "\<exists>conv'. map_of (performCleanup now shift db) senderId = Some conv'
           \<and> metadata conv' = metadata conv
           \<and> messages conv'
               = filter (\<lambda>msg. dateGreater (timestamp msg) (cutoffDate now shift)) (messages conv)
           \<and> (\<forall>msg. (msg \<in> set (messages conv')) =
                 (msg \<in> set (messages conv)
                  \<and> (\<exists>t. timestamp msg = Some t \<and> now - 30 * 86400000 + shift < t)))
           \<and> ((\<forall>msg \<in> set (messages conv).
                  \<exists>t. timestamp msg = Some t \<and> t < now - 30 * 86400000 + shift)
                \<longrightarrow> messages conv' = [])"
proof -
  let ?kept = "filter (\<lambda>msg. dateGreater (timestamp msg) (cutoffDate now shift)) (messages conv)"
  have m: "map_of (performCleanup now shift db) senderId = Some (conv\<lparr>messages := ?kept\<rparr>)"
    using assms by (simp add: performCleanup_def cleanupLoop_map_of split: if_splits)
  have newer: "\<And>msg. dateGreater (timestamp msg) (cutoffDate now shift)
      = (\<exists>t. timestamp msg = Some t \<and> now - 30 * 86400000 + shift < t)"
    by (auto simp: dateGreater_def cutoffDate_def split: option.splits)
  have "(\<forall>msg \<in> set (messages conv).
            \<exists>t. timestamp msg = Some t \<and> t < now - 30 * 86400000 + shift) \<Longrightarrow> ?kept = []"
    by (auto simp: filter_empty_conv newer)
  then show ?thesis using m newer by auto
qed

theorem performCleanup_retained_messages_witness:
  "map_of (performCleanup 3456000000 0
      [(''b'', \<lparr>messages = replicate 12 \<lparr>msgId = ''m'', role = ''user'', content = ''hi'',
                                        timestamp = Some 777600000\<rparr>,
               metadata = \<lparr>firstMessageTime = Some 777600000,
                           lastMessageTime = Some 777600000,
                           messageCount = 12\<rparr>\<rparr>)]) ''b''
    = Some \<lparr>messages = [],
            metadata = \<lparr>firstMessageTime = Some 777600000, lastMessageTime = Some 777600000,
                        messageCount = 12\<rparr>\<rparr>"
proof -
  let ?db = "[(''b'', \<lparr>messages = replicate 12 \<lparr>msgId = ''m'', role = ''user'', content = ''hi'',
                                        timestamp = Some 777600000\<rparr>,
               metadata = \<lparr>firstMessageTime = Some 777600000,
                           lastMessageTime = Some 777600000,
                           messageCount = 12\<rparr>\<rparr>)]"
  have kept: "map_of (performCleanup 3456000000 0 ?db) ''b'' \<noteq> None"
    by (simp add: performCleanup_def cutoffDate_def dateLess_def Let_def)
  have d: "distinct (map fst ?db)" by simp
  have g: "map_of ?db ''b'' = Some (snd (hd ?db))" by simp
  from performCleanup_retained_messages[OF d g kept]
  obtain conv' where c: "map_of (performCleanup 3456000000 0 ?db) ''b'' = Some conv'"
     "metadata conv' = metadata (snd (hd ?db))"
     "messages conv' = filter (\<lambda>msg. dateGreater (timestamp msg) (cutoffDate 3456000000 0)) (messages (snd (hd ?db)))"
    by blast
  have "messages conv' = []" unfolding c(3) by (simp add: dateGreater_def cutoffDate_def)
  moreover have "metadata conv' = \<lparr>firstMessageTime = Some 777600000, lastMessageTime = Some 777600000,
                        messageCount = 12\<rparr>" unfolding c(2) by simp
  ultimately have "conv' = \<lparr>messages = [],
            metadata = \<lparr>firstMessageTime = Some 777600000, lastMessageTime = Some 777600000,
                        messageCount = 12\<rparr>\<rparr>" by (cases conv') simp
  then show ?thesis using c(1) by simp
qed


section \<open>Rate limiting\<close>

lemma handle_in_window:
  assumes "rl u = Some ul" and "tCheck env \<le> resetTime ul" and "sender m = u" and "\<not> isGroup m"
  shows "count ul \<ge> 10 \<Longrightarrow> handleSingleMessage bn m env rl = (Inr Dropped, rl)"
    and "count ul < 10 \<Longrightarrow> fst (handleSingleMessage bn m env rl) \<noteq> Inr Dropped"
    and "count ul < 10 \<Longrightarrow>
           snd (handleSingleMessage bn m env rl) = rl(u \<mapsto> ul\<lparr>count := count ul + 1\<rparr>)"
  using assms
  by (auto simp: handleSingleMessage_def isRateLimited_def updateRateLimit_def Let_def
      map_upd_triv split: option.splits)

lemma handle_fresh:
  assumes "rl u = None" and "sender m = u" and "\<not> isGroup m"
  shows "fst (handleSingleMessage bn m env rl) \<noteq> Inr Dropped"
    and "snd (handleSingleMessage bn m env rl)
           = rl(u \<mapsto> \<lparr>count = 1, resetTime = tUpdate env + 60000\<rparr>)"
  using assms
  by (auto simp: handleSingleMessage_def isRateLimited_def updateRateLimit_def Let_def
      split: option.splits)

lemma handle_expired:
  assumes "rl u = Some ul" and "resetTime ul < tCheck env" and "sender m = u" and "\<not> isGroup m"
  shows "fst (handleSingleMessage bn m env rl) \<noteq> Inr Dropped"
    and "snd (handleSingleMessage bn m env rl)
           = rl(u \<mapsto> \<lparr>count = 1, resetTime = tCheck env + 60000\<rparr>)"
  using assms
  by (auto simp: handleSingleMessage_def isRateLimited_def updateRateLimit_def Let_def
      split: option.splits)

lemma handleAll_in_window:
  assumes "rl u = Some ul" and "count ul \<le> 10"
    and "\<forall>(m, env) \<in> set evs. sender m = u \<and> \<not> isGroup m \<and> tCheck env \<le> resetTime ul"
  shows "map (\<lambda>r. r = Inr Dropped) (fst (handleAll bn evs rl))
           = replicate (min (10 - count ul) (length evs)) False
             @ replicate (length evs - (10 - count ul)) True
         \<and> snd (handleAll bn evs rl) u = Some (ul\<lparr>count := min 10 (count ul + length evs)\<rparr>)"
  using assms
proof (induction evs arbitrary: rl ul)
  case Nil
  then show ?case by simp
next
  case (Cons p evs)
  obtain m env where p: "p = (m, env)" by (cases p)
  have hm: "sender m = u" "\<not> isGroup m" "tCheck env \<le> resetTime ul"
    using Cons.prems(3) p by auto
  have rest: "\<forall>(m, env) \<in> set evs. sender m = u \<and> \<not> isGroup m \<and> tCheck env \<le> resetTime ul"
    using Cons.prems(3) by auto
  obtain res rl1 where h: "handleSingleMessage bn m env rl = (res, rl1)"
    by (cases "handleSingleMessage bn m env rl")
  obtain ress rl2 where ha: "handleAll bn evs rl1 = (ress, rl2)"
    by (cases "handleAll bn evs rl1")
  show ?case
  proof (cases "count ul < 10")
    case True
    have r: "res \<noteq> Inr Dropped" "rl1 = rl(u \<mapsto> ul\<lparr>count := count ul + 1\<rparr>)"
      using handle_in_window(2,3)[of rl u ul env m bn] Cons.prems(1) hm True h by auto
    let ?ul = "ul\<lparr>count := count ul + 1\<rparr>"
    have "rl1 u = Some ?ul" using r by simp
    moreover have "count ?ul \<le> 10" using True by simp
    moreover have "\<forall>(m, env) \<in> set evs. sender m = u \<and> \<not> isGroup m \<and> tCheck env \<le> resetTime ?ul"
      using rest by simp
    ultimately have ih: "map (\<lambda>r. r = Inr Dropped) ress
           = replicate (min (10 - count ?ul) (length evs)) False
             @ replicate (length evs - (10 - count ?ul)) True
         \<and> rl2 u = Some (?ul\<lparr>count := min 10 (count ?ul + length evs)\<rparr>)"
      using Cons.IH[of rl1 ?ul] ha by simp
    have a: "min (10 - count ul) (Suc (length evs)) = Suc (min (10 - (count ul + 1)) (length evs))"
      using True by auto
    have b: "Suc (length evs) - (10 - count ul) = length evs - (10 - (count ul + 1))"
      using True by auto
    show ?thesis using ih r(1) by (simp add: p h ha a b)
  next
    case False
    then have c10: "count ul = 10" using Cons.prems(2) by simp
    have r: "res = Inr Dropped" "rl1 = rl"
      using handle_in_window(1)[of rl u ul env m bn] Cons.prems(1) hm h c10 by auto
    have ih: "map (\<lambda>r. r = Inr Dropped) ress
           = replicate (min (10 - count ul) (length evs)) False
             @ replicate (length evs - (10 - count ul)) True
         \<and> rl2 u = Some (ul\<lparr>count := min 10 (count ul + length evs)\<rparr>)"
      using Cons.IH[of rl1 ul] Cons.prems(2) rest ha r Cons.prems(1) by simp
    show ?thesis using ih r(1) c10 by (simp add: p h ha)
  qed
qed


text \<open>
  C7, amended. The limiter has a window of 60 seconds (60000 ms) and a capacity of 10,
  counted at the rate checks: the worker of a sender makes the check of a message when it
  reaches the message, not when the message is submitted. For a sender with no open
  window (no entry, or an entry whose reset time has passed), of 11 messages whose rate
  checks all fall within 60 seconds of the first check, the first 10 pass the check and
  are counted, and the 11th ends as \<open>Dropped\<close>: \<open>_handleSingleMessage\<close> returns before
  anything is stored or sent, and nothing is put back into the queue. The counter then
  stays at 10 until a check finds the reset time passed; that check resets it, and the
  message is processed in a new window.
\<close>

theorem rate_limit_window:
  assumes "rl u = None \<or> (\<exists>ul. rl u = Some ul \<and> resetTime ul < tCheck env1)"
    and "length rest = 10"
    and "\<forall>(m, env) \<in> set ((m1, env1) # rest). sender m = u \<and> \<not> isGroup m"
    and "tCheck env1 \<le> tUpdate env1"
    and "\<forall>(m, env) \<in> set rest. tCheck env \<le> tCheck env1 + 60000"
  shows "map (\<lambda>r. r = Inr Dropped) (fst (handleAll bn ((m1, env1) # rest) rl))
           = replicate 10 False @ [True]
         \<and> (\<exists>ul. snd (handleAll bn ((m1, env1) # rest) rl) u = Some ul
               \<and> count ul = 10
               \<and> tCheck env1 + 60000 \<le> resetTime ul \<and> resetTime ul \<le> tUpdate env1 + 60000
               \<and> (\<forall>m' env'. sender m' = u \<and> \<not> isGroup m' \<and> tCheck env' \<le> resetTime ul \<longrightarrow>
                     handleSingleMessage bn m' env' (snd (handleAll bn ((m1, env1) # rest) rl))
                       = (Inr Dropped, snd (handleAll bn ((m1, env1) # rest) rl)))
               \<and> (\<forall>m' env'. sender m' = u \<and> \<not> isGroup m' \<and> resetTime ul < tCheck env' \<longrightarrow>
                     fst (handleSingleMessage bn m' env' (snd (handleAll bn ((m1, env1) # rest) rl)))
                       \<noteq> Inr Dropped
                     \<and> snd (handleSingleMessage bn m' env' (snd (handleAll bn ((m1, env1) # rest) rl))) u
                         = Some \<lparr>count = 1, resetTime = tCheck env' + 60000\<rparr>))"
proof -
  obtain res rl1 where h: "handleSingleMessage bn m1 env1 rl = (res, rl1)"
    by (cases "handleSingleMessage bn m1 env1 rl")
  obtain ress rl2 where ha: "handleAll bn rest rl1 = (ress, rl2)"
    by (cases "handleAll bn rest rl1")
  have m1: "sender m1 = u" "\<not> isGroup m1" using assms(3) by auto
  have "res \<noteq> Inr Dropped \<and> (\<exists>R. rl1 u = Some \<lparr>count = 1, resetTime = R\<rparr>
          \<and> tCheck env1 + 60000 \<le> R \<and> R \<le> tUpdate env1 + 60000)"
  proof (cases "rl u")
    case None
    from handle_fresh[of rl u m1 bn env1] None m1 h assms(4) show ?thesis by auto
  next
    case (Some ul)
    with assms(1) have "resetTime ul < tCheck env1" by auto
    from handle_expired[of rl u ul env1 m1 bn] Some this m1 h assms(4) show ?thesis by auto
  qed
  then obtain R where r: "res \<noteq> Inr Dropped" "rl1 u = Some \<lparr>count = 1, resetTime = R\<rparr>"
      "tCheck env1 + 60000 \<le> R" "R \<le> tUpdate env1 + 60000" by blast
  let ?ul1 = "\<lparr>count = 1, resetTime = R\<rparr>"
  have w: "\<forall>(m, env) \<in> set rest. sender m = u \<and> \<not> isGroup m \<and> tCheck env \<le> resetTime ?ul1"
    using assms(3,5) r(3) by fastforce
  have c1: "count ?ul1 \<le> 10" by simp
  from handleAll_in_window[of rl1 u ?ul1 rest bn] r(2) c1 w ha assms(2)
  have rest: "map (\<lambda>r. r = Inr Dropped) ress = replicate 9 False @ [True]"
       "rl2 u = Some \<lparr>count = 10, resetTime = R\<rparr>"
    by simp_all
  have all: "handleAll bn ((m1, env1) # rest) rl = (res # ress, rl2)"
    by (simp add: h ha)
  have n10: "replicate 10 False = False # replicate 9 False"
    by (simp add: numeral_eq_Suc)
  have p1: "map (\<lambda>r. r = Inr Dropped) (res # ress) = replicate 10 False @ [True]"
    using rest(1) r(1) n10 by simp
  let ?ul = "\<lparr>count = 10, resetTime = R\<rparr>"
  have p2: "\<And>m' env'. sender m' = u \<Longrightarrow> \<not> isGroup m' \<Longrightarrow> tCheck env' \<le> resetTime ?ul \<Longrightarrow>
      handleSingleMessage bn m' env' rl2 = (Inr Dropped, rl2)"
    using handle_in_window(1)[of rl2 u ?ul _ _ bn] rest(2) by simp
  have p3: "\<And>m' env'. sender m' = u \<Longrightarrow> \<not> isGroup m' \<Longrightarrow> resetTime ?ul < tCheck env' \<Longrightarrow>
      fst (handleSingleMessage bn m' env' rl2) \<noteq> Inr Dropped
      \<and> snd (handleSingleMessage bn m' env' rl2) u = Some \<lparr>count = 1, resetTime = tCheck env' + 60000\<rparr>"
    using handle_expired[of rl2 u ?ul _ _ bn] rest(2) by simp
  show ?thesis unfolding all fst_conv snd_conv
    apply (intro conjI)
     apply (rule p1)
    apply (rule exI[of _ ?ul])
    using rest(2) r(3,4) p2 p3 by simp
qed


theorem rate_limit_window_witness:
  "map (\<lambda>r. r = Inr Dropped)
     (fst (handleAll ''bot''
        ((\<lparr>sender = ''u'', senderName = ''U'', msgText = ''hi'', isGroup = False\<rparr>,
          \<lparr>tCheck = 1000, tUpdate = 1000, bodyError = None, apologyError = None\<rparr>)
         # replicate 10
            (\<lparr>sender = ''u'', senderName = ''U'', msgText = ''hi'', isGroup = False\<rparr>,
             \<lparr>tCheck = 1000, tUpdate = 1000, bodyError = None, apologyError = None\<rparr>))
        Map.empty))
     = replicate 10 False @ [True]
   \<and> fst (handleSingleMessage ''bot''
          \<lparr>sender = ''u'', senderName = ''U'', msgText = ''hi'', isGroup = False\<rparr>
          \<lparr>tCheck = 61001, tUpdate = 61001, bodyError = None, apologyError = None\<rparr>
          (snd (handleAll ''bot''
            ((\<lparr>sender = ''u'', senderName = ''U'', msgText = ''hi'', isGroup = False\<rparr>,
              \<lparr>tCheck = 1000, tUpdate = 1000, bodyError = None, apologyError = None\<rparr>)
             # replicate 10
                (\<lparr>sender = ''u'', senderName = ''U'', msgText = ''hi'', isGroup = False\<rparr>,
                 \<lparr>tCheck = 1000, tUpdate = 1000, bodyError = None, apologyError = None\<rparr>))
            Map.empty)))
       \<noteq> Inr Dropped"
proof -
  let ?m = "\<lparr>sender = ''u'', senderName = ''U'', msgText = ''hi'', isGroup = False\<rparr>"
  let ?e = "\<lparr>tCheck = 1000, tUpdate = 1000, bodyError = None, apologyError = None\<rparr>"
  let ?e' = "\<lparr>tCheck = 61001, tUpdate = 61001, bodyError = None, apologyError = None\<rparr>"
  let ?rl = "Map.empty :: rateLimiter"
  have a1: "?rl ''u'' = None \<or> (\<exists>ul. ?rl ''u'' = Some ul \<and> resetTime ul < tCheck ?e)" by simp
  have a2: "length (replicate 10 (?m, ?e)) = 10" by simp
  have a3: "\<forall>(m, env) \<in> set ((?m, ?e) # replicate 10 (?m, ?e)). sender m = ''u'' \<and> \<not> isGroup m"
    by simp
  have a4: "tCheck ?e \<le> tUpdate ?e" by simp
  have a5: "\<forall>(m, env) \<in> set (replicate 10 (?m, ?e)). tCheck env \<le> tCheck ?e + 60000" by simp
  note th = rate_limit_window[of ?rl "''u''" ?e "replicate 10 (?m, ?e)" ?m "''bot''", OF a1 a2 a3 a4 a5]
  let ?rl' = "snd (handleAll ''bot'' ((?m, ?e) # replicate 10 (?m, ?e)) ?rl)"
  from th[THEN conjunct2] have "fst (handleSingleMessage ''bot'' ?m ?e' ?rl') \<noteq> Inr Dropped"
  proof (elim exE conjE)
    fix ul
    assume r: "resetTime ul \<le> tUpdate ?e + 60000"
    assume f: "\<forall>m' env'. sender m' = ''u'' \<and> \<not> isGroup m' \<and> resetTime ul < tCheck env' \<longrightarrow>
        fst (handleSingleMessage ''bot'' m' env' ?rl') \<noteq> Inr Dropped
        \<and> snd (handleSingleMessage ''bot'' m' env' ?rl') ''u''
            = Some \<lparr>count = 1, resetTime = tCheck env' + 60000\<rparr>"
    have "resetTime ul < tCheck ?e'" using r by simp
    then show ?thesis using f[rule_format, of ?m ?e'] by simp
  qed
  then show ?thesis using th[THEN conjunct1] by (rule conjI[rotated])
qed

text \<open>
  C7, as claimed, fails: 11 messages of one sender submitted together (all arrive before
  the first handling settles) and handled in 7 seconds each are all processed, none is
  dropped. The limiter reads the clock at the check, and the tenth check, 63 seconds
  after the first, finds the window expired and opens a new one.
\<close>

theorem rate_limit_slow_handling_counterexample:
  "map snd (handled (run ''bot''
        [Arrive \<lparr>sender = ''u'', senderName = ''U'', msgText = ''m1'', isGroup = False\<rparr>,
         Arrive \<lparr>sender = ''u'', senderName = ''U'', msgText = ''m2'', isGroup = False\<rparr>,
         Arrive \<lparr>sender = ''u'', senderName = ''U'', msgText = ''m3'', isGroup = False\<rparr>,
         Arrive \<lparr>sender = ''u'', senderName = ''U'', msgText = ''m4'', isGroup = False\<rparr>,
         Arrive \<lparr>sender = ''u'', senderName = ''U'', msgText = ''m5'', isGroup = False\<rparr>,
         Arrive \<lparr>sender = ''u'', senderName = ''U'', msgText = ''m6'', isGroup = False\<rparr>,
         Arrive \<lparr>sender = ''u'', senderName = ''U'', msgText = ''m7'', isGroup = False\<rparr>,
         Arrive \<lparr>sender = ''u'', senderName = ''U'', msgText = ''m8'', isGroup = False\<rparr>,
         Arrive \<lparr>sender = ''u'', senderName = ''U'', msgText = ''m9'', isGroup = False\<rparr>,
         Arrive \<lparr>sender = ''u'', senderName = ''U'', msgText = ''m10'', isGroup = False\<rparr>,
         Arrive \<lparr>sender = ''u'', senderName = ''U'', msgText = ''m11'', isGroup = False\<rparr>,
         Settle 0 \<lparr>tCheck = 1000, tUpdate = 1000, bodyError = None, apologyError = None\<rparr>,
         Settle 0 \<lparr>tCheck = 8000, tUpdate = 8000, bodyError = None, apologyError = None\<rparr>,
         Settle 0 \<lparr>tCheck = 15000, tUpdate = 15000, bodyError = None, apologyError = None\<rparr>,
         Settle 0 \<lparr>tCheck = 22000, tUpdate = 22000, bodyError = None, apologyError = None\<rparr>,
         Settle 0 \<lparr>tCheck = 29000, tUpdate = 29000, bodyError = None, apologyError = None\<rparr>,
         Settle 0 \<lparr>tCheck = 36000, tUpdate = 36000, bodyError = None, apologyError = None\<rparr>,
         Settle 0 \<lparr>tCheck = 43000, tUpdate = 43000, bodyError = None, apologyError = None\<rparr>,
         Settle 0 \<lparr>tCheck = 50000, tUpdate = 50000, bodyError = None, apologyError = None\<rparr>,
         Settle 0 \<lparr>tCheck = 57000, tUpdate = 57000, bodyError = None, apologyError = None\<rparr>,
         Settle 0 \<lparr>tCheck = 64000, tUpdate = 64000, bodyError = None, apologyError = None\<rparr>,
         Settle 0 \<lparr>tCheck = 71000, tUpdate = 71000, bodyError = None, apologyError = None\<rparr>]))
     = [Inr Replied, Inr Replied, Inr Replied, Inr Replied, Inr Replied, Inr Replied,
        Inr Replied, Inr Replied, Inr Replied, Inr Replied, Inr Replied]
   \<and> rateLimiter (run ''bot''
        [Arrive \<lparr>sender = ''u'', senderName = ''U'', msgText = ''m1'', isGroup = False\<rparr>,
         Arrive \<lparr>sender = ''u'', senderName = ''U'', msgText = ''m2'', isGroup = False\<rparr>,
         Arrive \<lparr>sender = ''u'', senderName = ''U'', msgText = ''m3'', isGroup = False\<rparr>,
         Arrive \<lparr>sender = ''u'', senderName = ''U'', msgText = ''m4'', isGroup = False\<rparr>,
         Arrive \<lparr>sender = ''u'', senderName = ''U'', msgText = ''m5'', isGroup = False\<rparr>,
         Arrive \<lparr>sender = ''u'', senderName = ''U'', msgText = ''m6'', isGroup = False\<rparr>,
         Arrive \<lparr>sender = ''u'', senderName = ''U'', msgText = ''m7'', isGroup = False\<rparr>,
         Arrive \<lparr>sender = ''u'', senderName = ''U'', msgText = ''m8'', isGroup = False\<rparr>,
         Arrive \<lparr>sender = ''u'', senderName = ''U'', msgText = ''m9'', isGroup = False\<rparr>,
         Arrive \<lparr>sender = ''u'', senderName = ''U'', msgText = ''m10'', isGroup = False\<rparr>,
         Arrive \<lparr>sender = ''u'', senderName = ''U'', msgText = ''m11'', isGroup = False\<rparr>,
         Settle 0 \<lparr>tCheck = 1000, tUpdate = 1000, bodyError = None, apologyError = None\<rparr>,
         Settle 0 \<lparr>tCheck = 8000, tUpdate = 8000, bodyError = None, apologyError = None\<rparr>,
         Settle 0 \<lparr>tCheck = 15000, tUpdate = 15000, bodyError = None, apologyError = None\<rparr>,
         Settle 0 \<lparr>tCheck = 22000, tUpdate = 22000, bodyError = None, apologyError = None\<rparr>,
         Settle 0 \<lparr>tCheck = 29000, tUpdate = 29000, bodyError = None, apologyError = None\<rparr>,
         Settle 0 \<lparr>tCheck = 36000, tUpdate = 36000, bodyError = None, apologyError = None\<rparr>,
         Settle 0 \<lparr>tCheck = 43000, tUpdate = 43000, bodyError = None, apologyError = None\<rparr>,
         Settle 0 \<lparr>tCheck = 50000, tUpdate = 50000, bodyError = None, apologyError = None\<rparr>,
         Settle 0 \<lparr>tCheck = 57000, tUpdate = 57000, bodyError = None, apologyError = None\<rparr>,
         Settle 0 \<lparr>tCheck = 64000, tUpdate = 64000, bodyError = None, apologyError = None\<rparr>,
         Settle 0 \<lparr>tCheck = 71000, tUpdate = 71000, bodyError = None, apologyError = None\<rparr>]) ''u''
     = Some \<lparr>count = 2, resetTime = 124000\<rparr>"
  by (simp add: run_def queueMessage_def processQueue_def whileLoop_def finallyBlock_def settle_def
      handleSingleMessage_def isRateLimited_def updateRateLimit_def newService_def Let_def)

section \<open>Double arithmetic\<close>

lemma nat_bounds_rat:
  assumes "0 < (p::int)"
  shows "(2::rat) ^ (floorlog 2 (nat p) - 1) \<le> of_int p"
    and "of_int p < (2::rat) ^ floorlog 2 (nat p)"
    and "0 < floorlog 2 (nat p)"
proof -
  have np: "0 < nat p" using assms by simp
  from floorlog_bounds[OF np, of 2]
  have b: "2 ^ (floorlog 2 (nat p) - 1) \<le> nat p" "nat p < 2 ^ floorlog 2 (nat p)" by simp_all
  have e: "(of_nat (nat p) :: rat) = of_int p" using assms by simp
  have "(of_nat (2 ^ (floorlog 2 (nat p) - 1)) :: rat) \<le> of_nat (nat p)"
    using b(1) by (simp only: of_nat_le_iff)
  then show "(2::rat) ^ (floorlog 2 (nat p) - 1) \<le> of_int p" unfolding e by simp
  have "(of_nat (nat p) :: rat) < of_nat (2 ^ floorlog 2 (nat p))"
    using b(2) by (simp only: of_nat_less_iff)
  then show "of_int p < (2::rat) ^ floorlog 2 (nat p)" unfolding e by simp
  show "0 < floorlog 2 (nat p)" using np by (simp add: floorlog_def)
qed

lemma exponentOf_bounds:
  assumes "0 < x"
  shows "2 powi exponentOf x \<le> x" and "x < 2 powi (exponentOf x + 1)"
proof -
  obtain p q where pq: "quotient_of x = (p, q)" by force
  have q: "0 < q" using quotient_of_denom_pos[OF pq] .
  have x: "x = of_int p / of_int q" using quotient_of_div[OF pq] .
  have p: "0 < p" using assms q unfolding x by (simp add: zero_less_divide_iff)
  define a where "a = floorlog 2 (nat p)"
  define b where "b = floorlog 2 (nat q)"
  note pa = nat_bounds_rat[OF p, folded a_def]
  note qb = nat_bounds_rat[OF q, folded b_def]
  have qpos: "(0::rat) < of_int q" using q by simp
  have up: "x < 2 powi (int a - int b + 1)"
  proof -
    have "x < 2 ^ a / of_int q" unfolding x using pa(2) qpos by (simp add: divide_strict_right_mono)
    also have "\<dots> \<le> 2 ^ a / 2 ^ (b - 1)" using qb(1) by (simp add: frac_le)
    also have "\<dots> = 2 powi (int a - int (b - 1))" by (simp add: power_int_diff)
    also have "int a - int (b - 1) = int a - int b + 1" using qb(3) by simp
    finally show ?thesis .
  qed
  have lo: "2 powi (int a - int b - 1) \<le> x"
  proof -
    have ex: "int a - int b - 1 = int (a - 1) - int b" using pa(3) by linarith
    have "(2::rat) powi (int a - int b - 1) = 2 powi (int (a - 1) - int b)" by (simp only: ex)
    also have "\<dots> = (2::rat) ^ (a - 1) / 2 ^ b" by (simp add: power_int_diff)
    also have "\<dots> \<le> of_int p / 2 ^ b" using pa(1) by (simp add: divide_right_mono)
    also have "\<dots> \<le> of_int p / of_int q" using qb(2) qpos p by (simp add: frac_le)
    finally show ?thesis unfolding x .
  qed
  have e: "exponentOf x = (if 2 powi (int a - int b) \<le> x then int a - int b else int a - int b - 1)"
    by (simp add: exponentOf_def pq a_def b_def Let_def)
  show "2 powi exponentOf x \<le> x" using lo by (simp add: e)
  show "x < 2 powi (exponentOf x + 1)" using up by (auto simp: e not_le)
qed

lemma exponentOf_unique:
  assumes "0 < x" and "2 powi E \<le> x" and "x < 2 powi (E + 1)"
  shows "exponentOf x = E"
proof -
  note b = exponentOf_bounds[OF assms(1)]
  have "(2::rat) powi exponentOf x < 2 powi (E + 1)" using b(1) assms(3) by simp
  then have 1: "exponentOf x < E + 1"
    by (metis not_less power_int_increasing one_le_numeral leD)
  have "(2::rat) powi E < 2 powi (exponentOf x + 1)" using b(2) assms(2) by simp
  then have 2: "E < exponentOf x + 1"
    by (metis not_less power_int_increasing one_le_numeral leD)
  show ?thesis using 1 2 by simp
qed

lemma roundHalfEven_le: "y \<le> of_int D \<Longrightarrow> roundHalfEven y \<le> D"
  unfolding roundHalfEven_def Let_def
  by (auto simp: le_floor_iff floor_le_iff not_less)

lemma roundHalfEven_ge:
  assumes "of_int D \<le> y"
  shows "D \<le> roundHalfEven y"
proof -
  have "D \<le> \<lfloor>y\<rfloor>" using assms by (simp add: le_floor_iff)
  then show ?thesis unfolding roundHalfEven_def Let_def by auto
qed

lemma roundHalfEven_of_int [simp]: "roundHalfEven (of_int n) = n"
  by (simp add: roundHalfEven_def)

lemma dbl_0 [simp]: "dbl 0 = 0"
  by (simp add: dbl_def)

lemma dbl_nonneg: "0 \<le> x \<Longrightarrow> 0 \<le> dbl x"
proof (cases "x = 0")
  case True
  then show ?thesis by simp
next
  case False
  assume "0 \<le> x"
  with False have x: "0 < x" by simp
  let ?u = "(2::rat) powi (max (exponentOf \<bar>x\<bar>) (- 1022) - 52)"
  have u: "0 < ?u" by simp
  have "0 \<le> x / ?u" using x u by simp
  then have "(0::int) \<le> roundHalfEven (\<bar>x\<bar> / ?u)"
    using roundHalfEven_ge[of 0 "\<bar>x\<bar> / ?u"] x by simp
  then show ?thesis using x u by (simp add: dbl_def Let_def)
qed

lemma dbl_minus: "dbl (- x) = - dbl x"
  by (simp add: dbl_def Let_def)

text \<open>Evaluation of \<open>dbl\<close> at a positive value whose binade is known.\<close>

lemma dbl_eval:
  assumes "0 < x" and "2 powi E \<le> x" and "x < 2 powi (E + 1)" and "- 1022 \<le> E"
  shows "dbl x = of_int (roundHalfEven (x / 2 powi (E - 52))) * 2 powi (E - 52)"
proof -
  have "exponentOf x = E" using exponentOf_unique[OF assms(1,2,3)] .
  then show ?thesis using assms(1,4) by (simp add: dbl_def Let_def max_def)
qed

lemma ulp_inverse_int:
  assumes "0 < x" and "x < 2 ^ 53"
  shows "\<exists>n. (1::rat) / 2 powi (max (exponentOf x) (- 1022) - 52) = 2 ^ n"
proof -
  let ?E = "max (exponentOf x) (- 1022)"
  have "(2::rat) powi exponentOf x < 2 powi 53"
    using exponentOf_bounds(1)[OF assms(1)] assms(2) by simp
  then have "exponentOf x < 53"
    by (metis not_less power_int_increasing one_le_numeral leD)
  then have le: "?E \<le> 52" by simp
  have "(1::rat) / 2 powi (?E - 52) = 2 powi (52 - ?E)"
    by (simp add: power_int_diff)
  also have "\<dots> = 2 ^ nat (52 - ?E)" using le by (simp add: power_int_def)
  finally show ?thesis by blast
qed

lemma dbl_le_int:
  assumes "0 < x" and "x < 2 ^ 53" and "x \<le> of_int d"
  shows "dbl x \<le> of_int d"
proof -
  let ?u = "(2::rat) powi (max (exponentOf x) (- 1022) - 52)"
  have u: "0 < ?u" by simp
  from ulp_inverse_int[OF assms(1,2)] obtain n where n: "1 / ?u = 2 ^ n" by blast
  have du: "of_int d / ?u = of_int (d * 2 ^ n)"
    using n by (simp add: field_simps)
  have "x / ?u \<le> of_int d / ?u" using assms(3) u by (simp add: divide_right_mono)
  then have "roundHalfEven (x / ?u) \<le> d * 2 ^ n" unfolding du by (rule roundHalfEven_le)
  then have "(of_int (roundHalfEven (x / ?u)) :: rat) \<le> of_int (d * 2 ^ n)"
    by (simp only: of_int_le_iff)
  then have "of_int (roundHalfEven (x / ?u)) * ?u \<le> of_int (d * 2 ^ n) * ?u"
    using u by (simp only: mult_le_cancel_right_pos)
  also have "of_int (d * 2 ^ n) * ?u = of_int d" using du u by (simp add: field_simps)
  finally show ?thesis using assms(1) by (simp add: dbl_def Let_def)
qed

lemma dbl_ge_int:
  assumes "0 < x" and "x < 2 ^ 53" and "of_int d \<le> x"
  shows "of_int d \<le> dbl x"
proof -
  let ?u = "(2::rat) powi (max (exponentOf x) (- 1022) - 52)"
  have u: "0 < ?u" by simp
  from ulp_inverse_int[OF assms(1,2)] obtain n where n: "1 / ?u = 2 ^ n" by blast
  have du: "of_int d / ?u = of_int (d * 2 ^ n)"
    using n by (simp add: field_simps)
  have "of_int d / ?u \<le> x / ?u" using assms(3) u by (simp add: divide_right_mono)
  then have "d * 2 ^ n \<le> roundHalfEven (x / ?u)" unfolding du by (rule roundHalfEven_ge)
  then have "(of_int (d * 2 ^ n) :: rat) \<le> of_int (roundHalfEven (x / ?u))"
    by (simp only: of_int_le_iff)
  then have m: "of_int (d * 2 ^ n) * ?u \<le> of_int (roundHalfEven (x / ?u)) * ?u"
    using u by (simp only: mult_le_cancel_right_pos)
  have "of_int (d * 2 ^ n) * ?u = of_int d" using du u by (simp add: field_simps)
  then have "of_int d \<le> of_int (roundHalfEven (x / ?u)) * ?u" using m by (simp only:)
  then show ?thesis using assms(1) by (simp add: dbl_def Let_def)
qed

lemma dbl_of_int_pos:
  assumes "0 < d" and "(of_int d :: rat) < 2 ^ 53"
  shows "dbl (of_int d) = of_int d"
proof -
  have p: "(0::rat) < of_int d" using assms(1) by simp
  show ?thesis
    using dbl_le_int[OF p assms(2), of d] dbl_ge_int[OF p assms(2), of d] by simp
qed

lemma dbl_numeral [simp]: "(numeral n :: rat) < 2 ^ 53 \<Longrightarrow> dbl (numeral n) = numeral n"
  using dbl_of_int_pos[of "numeral n"] by simp

lemma dbl_1 [simp]: "dbl 1 = 1"
  using dbl_of_int_pos[of 1] by simp

lemma roundHalfEven_near:
  assumes "\<bar>y - of_int n\<bar> < 1 / 2"
  shows "roundHalfEven y = n"
proof -
  have b: "of_int n - 1 / 2 < y" "y < of_int n + 1 / 2" using assms by linarith+
  show ?thesis
  proof (cases "of_int n \<le> y")
    case True
    then have f: "\<lfloor>y\<rfloor> = n" using b(2) by (intro floor_unique) auto
    show ?thesis using b(2) by (simp add: roundHalfEven_def Let_def f)
  next
    case False
    then have f: "\<lfloor>y\<rfloor> = n - 1" using b(1) by (intro floor_unique) auto
    have "1 / 2 < y - of_int (n - 1)" using b(1) by simp
    then show ?thesis by (simp add: roundHalfEven_def Let_def f)
  qed
qed

lemma dbl_near:
  assumes "0 < x" and "2 powi E \<le> x" and "x < 2 powi (E + 1)" and "- 1022 \<le> E"
    and "\<bar>x / 2 powi (E - 52) - of_int n\<bar> < 1 / 2"
  shows "dbl x = of_int n * 2 powi (E - 52)"
  unfolding dbl_eval[OF assms(1-4)] roundHalfEven_near[OF assms(5)] ..

lemma dbl_half [simp]: "dbl (1 / 2) = 1 / 2"
  by (subst dbl_near[where E = "- 1" and n = "2 ^ 52"]) (simp_all add: power_int_minus)

section \<open>Credential selection\<close>

lemma bestLoop_none_better:
  "\<forall>c \<in> set cs. score now g c \<le> s0 \<Longrightarrow> bestLoop now g cs (b0, s0) = (b0, s0)"
  by (induction cs) auto

lemma bestLoop_first_max:
  assumes "\<exists>c \<in> set cs. s0 < score now g c"
  shows "\<exists>pre c post. cs = pre @ c # post \<and> fst (bestLoop now g cs (b0, s0)) = Some c
           \<and> s0 < score now g c
           \<and> (\<forall>x \<in> set pre. score now g x < score now g c)
           \<and> (\<forall>x \<in> set post. score now g x \<le> score now g c)"
  using assms
proof (induction cs arbitrary: b0 s0)
  case Nil
  then show ?case by simp
next
  case (Cons a cs)
  show ?case
  proof (cases "s0 < score now g a")
    case True
    show ?thesis
    proof (cases "\<exists>c \<in> set cs. score now g a < score now g c")
      case False
      then have "bestLoop now g cs (Some a, score now g a) = (Some a, score now g a)"
        by (intro bestLoop_none_better) (auto simp: not_less)
      then have "a # cs = [] @ a # cs \<and> fst (bestLoop now g (a # cs) (b0, s0)) = Some a
           \<and> s0 < score now g a
           \<and> (\<forall>x \<in> set []. score now g x < score now g a)
           \<and> (\<forall>x \<in> set cs. score now g x \<le> score now g a)"
        using True False by (auto simp: not_less)
      then show ?thesis by blast
    next
      case ex: True
      from Cons.IH[OF ex, of "Some a"] obtain pre c post where
        h: "cs = pre @ c # post" "fst (bestLoop now g cs (Some a, score now g a)) = Some c"
           "score now g a < score now g c"
           "\<forall>x \<in> set pre. score now g x < score now g c"
           "\<forall>x \<in> set post. score now g x \<le> score now g c"
        by blast
      have "a # cs = (a # pre) @ c # post \<and> fst (bestLoop now g (a # cs) (b0, s0)) = Some c
           \<and> s0 < score now g c
           \<and> (\<forall>x \<in> set (a # pre). score now g x < score now g c)
           \<and> (\<forall>x \<in> set post. score now g x \<le> score now g c)"
        using h True by auto
      then show ?thesis by blast
    qed
  next
    case False
    then have ex: "\<exists>c \<in> set cs. s0 < score now g c" using Cons.prems by auto
    from Cons.IH[OF ex, of b0] obtain pre c post where
        h: "cs = pre @ c # post" "fst (bestLoop now g cs (b0, s0)) = Some c"
           "s0 < score now g c"
           "\<forall>x \<in> set pre. score now g x < score now g c"
           "\<forall>x \<in> set post. score now g x \<le> score now g c"
      by blast
    have "a # cs = (a # pre) @ c # post \<and> fst (bestLoop now g (a # cs) (b0, s0)) = Some c
           \<and> s0 < score now g c
           \<and> (\<forall>x \<in> set (a # pre). score now g x < score now g c)
           \<and> (\<forall>x \<in> set post. score now g x \<le> score now g c)"
      using h False by auto
    then show ?thesis by blast
  qed
qed

lemma getBestClient_first_max:
  assumes "\<exists>c \<in> set (clients g). - 1 < score now g c"
  shows "\<exists>i < length (clients g). getBestClient now g = Some (clients g ! i)
           \<and> (\<forall>j < i. score now g (clients g ! j) < score now g (clients g ! i))
           \<and> (\<forall>j < length (clients g). score now g (clients g ! j) \<le> score now g (clients g ! i))"
proof -
  from bestLoop_first_max[OF assms] obtain pre c post where
    h: "clients g = pre @ c # post" "getBestClient now g = Some c"
       "\<forall>x \<in> set pre. score now g x < score now g c"
       "\<forall>x \<in> set post. score now g x \<le> score now g c"
    unfolding getBestClient_def by blast
  have i: "length pre < length (clients g)" "clients g ! length pre = c" using h(1) by simp_all
  have lt: "\<forall>j < length pre. score now g (clients g ! j) < score now g c"
    using h(1,3) by (simp add: nth_append)
  have le: "\<forall>j < length (clients g). score now g (clients g ! j) \<le> score now g c"
  proof (intro allI impI)
    fix j assume "j < length (clients g)"
    then have "clients g ! j \<in> set (clients g)" by simp
    then have "clients g ! j \<in> set pre \<or> clients g ! j = c \<or> clients g ! j \<in> set post"
      using h(1) by auto
    then show "score now g (clients g ! j) \<le> score now g c" using h(3,4) by auto
  qed
  show ?thesis using i lt le h(2) by blast
qed

lemma getBestClient_fallback:
  assumes "clients g \<noteq> []" and "\<forall>c \<in> set (clients g). score now g c \<le> - 1"
  shows "getBestClient now g = Some (hd (clients g))"
  using assms unfolding getBestClient_def
  by (cases "clients g") (simp_all add: bestLoop_none_better)


lemma errorRate_le_1:
  assumes "e \<le> r" and "0 < (r::nat)"
  shows "dbl (of_nat e / of_nat r) \<le> 1"
proof (cases "e = 0")
  case True
  then show ?thesis by simp
next
  case False
  have x: "0 < (of_nat e :: rat) / of_nat r" using False assms(2) by simp
  have le: "(of_nat e :: rat) / of_nat r \<le> of_int 1" using assms by simp
  have lt: "(of_nat e :: rat) / of_nat r < 2 ^ 53"
    using le by (rule le_less_trans) simp
  show ?thesis using dbl_le_int[OF x lt le] by simp
qed

lemma score_nonneg:
  assumes "orZero (errorCounts g idx) \<le> orZero (requestCounts g idx)"
    and "orZero (lastRequestTimes g idx) \<le> now"
  shows "0 \<le> score now g idx"
proof -
  let ?e = "orZero (errorCounts g idx)" and ?r = "orZero (requestCounts g idx)"
  have "(if ?r > 0 then dbl ((of_nat ?e :: rat) / of_nat ?r) else 0) \<le> 1"
    using errorRate_le_1[OF assms(1)] by simp
  then have "0 \<le> dbl (1 - (if ?r > 0 then dbl ((of_nat ?e :: rat) / of_nat ?r) else 0))"
    by (intro dbl_nonneg) simp
  then have a: "0 \<le> dbl (dbl (1 - (if ?r > 0 then dbl ((of_nat ?e :: rat) / of_nat ?r) else 0)) * 100)"
    by (intro dbl_nonneg) simp
  have "0 \<le> dbl ((of_int (now - orZero (lastRequestTimes g idx)) :: rat) / 1000)"
    using assms(2) by (intro dbl_nonneg) simp
  then have b: "0 \<le> min (dbl ((of_int (now - orZero (lastRequestTimes g idx)) :: rat) / 1000)) 60"
    by simp
  show ?thesis unfolding score_def Let_def by (rule dbl_nonneg) (rule add_nonneg_nonneg[OF a b])
qed

lemma score_spec:
  assumes "orZero (requestCounts g idx) > 0 \<or> orZero (errorCounts g idx) = 0"
  shows "score now g idx = specScore now g idx"
proof (cases "orZero (requestCounts g idx) > 0")
  case True
  then have "max (orZero (requestCounts g idx)) 1 = orZero (requestCounts g idx)" by simp
  then show ?thesis using True by (simp add: score_def specScore_def Let_def)
next
  case False
  then have "orZero (errorCounts g idx) = 0" using assms by simp
  then show ?thesis using False by (simp add: score_def specScore_def Let_def)
qed

lemma dbl_shift_less:
  assumes "0 \<le> m" and "m \<le> 60"
  shows "dbl (50 + m) < dbl (100 + m)"
proof -
  have p50: "0 < 50 + m" "50 + m < 2 ^ 53" using assms by simp_all
  have p100: "0 < 100 + m" "100 + m < 2 ^ 53" using assms by simp_all
  show ?thesis
  proof (cases "m \<le> 49")
    case True
    have "dbl (50 + m) \<le> of_int 99" using True by (intro dbl_le_int p50) simp
    moreover have "of_int 100 \<le> dbl (100 + m)" using assms(1) by (intro dbl_ge_int p100) simp
    ultimately show ?thesis by simp
  next
    case False
    have "dbl (50 + m) \<le> of_int 110" using assms(2) by (intro dbl_le_int p50) simp
    moreover have "of_int 149 \<le> dbl (100 + m)" using False by (intro dbl_ge_int p100) simp
    ultimately show ?thesis by simp
  qed
qed

lemma getBestClient_two:
  assumes "clients g = [a, b] \<or> clients g = [b, a]"
    and "orZero (lastRequestTimes g a) = orZero (lastRequestTimes g b)"
    and "orZero (lastRequestTimes g b) \<le> now"
    and "orZero (requestCounts g a) = 2 * orZero (errorCounts g a)"
    and "orZero (errorCounts g a) > 0"
    and "orZero (errorCounts g b) = 0"
  shows "getBestClient now g = Some b"
proof -
  let ?m = "min (dbl ((of_int (now - orZero (lastRequestTimes g b)) :: rat) / 1000)) 60"
  have "0 \<le> dbl ((of_int (now - orZero (lastRequestTimes g b)) :: rat) / 1000)"
    using assms(3) by (intro dbl_nonneg) simp
  then have m: "0 \<le> ?m" "?m \<le> 60" by simp_all
  have sb: "score now g b = dbl (100 + ?m)" using assms(6) by (simp add: score_def Let_def)
  have "(of_nat (orZero (errorCounts g a)) :: rat) / of_nat (2 * orZero (errorCounts g a)) = 1 / 2"
    using assms(5) by simp
  then have sa: "score now g a = dbl (50 + ?m)"
    using assms(2,4,5) by (simp add: score_def Let_def)
  have lt: "score now g a < score now g b" unfolding sa sb using m by (rule dbl_shift_less)
  have "of_int 100 \<le> dbl (100 + ?m)" using m by (intro dbl_ge_int) simp_all
  then have "- 1 < score now g b" unfolding sb by simp
  moreover have bin: "b \<in> set (clients g)" using assms(1) by auto
  ultimately have "\<exists>c \<in> set (clients g). - 1 < score now g c" by blast
  from getBestClient_first_max[OF this] obtain i where
    i: "i < length (clients g)" "getBestClient now g = Some (clients g ! i)"
       "\<forall>j < length (clients g). score now g (clients g ! j) \<le> score now g (clients g ! i)"
    by blast
  from bin obtain j where j: "j < length (clients g)" "clients g ! j = b"
    by (auto simp: in_set_conv_nth)
  then have "score now g b \<le> score now g (clients g ! i)" using i(3) by auto
  then have "clients g ! i \<noteq> a" using lt by auto
  moreover have "clients g ! i \<in> set (clients g)" using i(1) by simp
  ultimately have "clients g ! i = b" using assms(1) by auto
  then show ?thesis using i(2) by simp
qed


lemma dbl_quarters [simp]: "dbl (3 / 4) = 3 / 4" "dbl (1 / 4) = 1 / 4"
  by (subst dbl_near[where E = "- 1" and n = "3 * 2 ^ 51"], simp_all add: power_int_minus)
     (subst dbl_near[where E = "- 2" and n = "2 ^ 52"], simp_all add: power_int_minus)

lemma dbl_seven_tenths:
  "dbl (7 / 10) = 3152519739159347 / 4503599627370496"
  "dbl (1 - 3152519739159347 / 4503599627370496) = 5404319552844596 / 18014398509481984"
  "dbl (5404319552844596 / 18014398509481984 * 100) = 8444249301319681 / 281474976710656"
  "dbl (8444249301319681 / 281474976710656) = 8444249301319681 / 281474976710656"
     apply (subst dbl_near[where E = "- 1" and n = 6305039478318694], simp_all add: power_int_minus)
    apply (subst dbl_near[where E = "- 2" and n = 5404319552844596], simp_all add: power_int_minus)
   apply (subst dbl_near[where E = 4 and n = 8444249301319681], simp_all add: power_int_minus)
  apply (subst dbl_near[where E = 4 and n = 8444249301319681], simp_all add: power_int_minus)
  done

text \<open>
  C6, as claimed, fails on a slot that has errors recorded but no request: with
  \<open>requestCount = 0\<close> the source takes the error rate to be 0, where
  \<open>errorCount / max(requestCount, 1)\<close> is the error count. Slot 1 below scores 160 in
  the source and is returned; by the claimed formula it scores 60, below slot 0 with 110.
  (Two overlapping calls reach this state: both select slot 0, both fail, and the second
  failure is booked on slot 1, which by then has the better score.)
\<close>

theorem getBestClient_counterexample:
  "getBestClient 100000
     \<lparr>clients = [0, 1], requestCounts = [0 \<mapsto> 2, 1 \<mapsto> 0], errorCounts = [0 \<mapsto> 1, 1 \<mapsto> 1],
      lastRequestTimes = [0 \<mapsto> 0, 1 \<mapsto> 0]\<rparr> = Some 1
   \<and> score 100000
     \<lparr>clients = [0, 1], requestCounts = [0 \<mapsto> 2, 1 \<mapsto> 0], errorCounts = [0 \<mapsto> 1, 1 \<mapsto> 1],
      lastRequestTimes = [0 \<mapsto> 0, 1 \<mapsto> 0]\<rparr> 1 = 160
   \<and> specScore 100000
     \<lparr>clients = [0, 1], requestCounts = [0 \<mapsto> 2, 1 \<mapsto> 0], errorCounts = [0 \<mapsto> 1, 1 \<mapsto> 1],
      lastRequestTimes = [0 \<mapsto> 0, 1 \<mapsto> 0]\<rparr> 1 = 60
   \<and> specScore 100000
     \<lparr>clients = [0, 1], requestCounts = [0 \<mapsto> 2, 1 \<mapsto> 0], errorCounts = [0 \<mapsto> 1, 1 \<mapsto> 1],
      lastRequestTimes = [0 \<mapsto> 0, 1 \<mapsto> 0]\<rparr> 0 = 110"
  by (simp add: getBestClient_def score_def specScore_def orZero_def Let_def)

text \<open>
  C6, amended. \<open>getBestClient\<close> scores every slot, in double arithmetic, with
  \<open>(1 - errorRate) * 100 + min(secondsSinceLastUse, 60)\<close>, where \<open>errorRate\<close> is
  \<open>errorCount / requestCount\<close> for \<open>requestCount > 0\<close> and 0 otherwise; this is the claimed
  \<open>errorCount / max(requestCount, 1)\<close> whenever the slot has a request or no error.
  Whenever some computed score is above -1 (every computed score is at least 0 for a slot
  that has no more errors than requests and was last used in the past), it returns a slot
  whose computed score is greatest, the first such in registration order; scores that
  are equal as real numbers can differ once rounded, as the witness shows (30 against
  30.000000000000004). When no computed score is above -1 it returns the first
  registered slot. Of two credentials with equal idle time, one with error rate 0.5 and
  one with no errors, it returns the one with no errors.
\<close>

theorem getBestClient_selects:
  "score now g idx
     = dbl (dbl (dbl (1 - (if 0 < orZero (requestCounts g idx)
                           then dbl (of_nat (orZero (errorCounts g idx))
                                      / of_nat (orZero (requestCounts g idx)))
                           else 0)) * 100)
            + min (dbl (of_int (now - orZero (lastRequestTimes g idx)) / 1000)) 60)
   \<and> (0 < orZero (requestCounts g idx) \<or> orZero (errorCounts g idx) = 0
        \<longrightarrow> score now g idx = specScore now g idx)
   \<and> (orZero (errorCounts g idx) \<le> orZero (requestCounts g idx)
          \<and> orZero (lastRequestTimes g idx) \<le> now
        \<longrightarrow> 0 \<le> score now g idx)
   \<and> ((\<exists>c \<in> set (clients g). - 1 < score now g c) \<longrightarrow>
        (\<exists>i < length (clients g). getBestClient now g = Some (clients g ! i)
           \<and> (\<forall>j < i. score now g (clients g ! j) < score now g (clients g ! i))
           \<and> (\<forall>j < length (clients g).
                 score now g (clients g ! j) \<le> score now g (clients g ! i))))
   \<and> (clients g \<noteq> [] \<and> (\<forall>c \<in> set (clients g). score now g c \<le> - 1)
        \<longrightarrow> getBestClient now g = Some (hd (clients g)))
   \<and> ((clients g = [a, b] \<or> clients g = [b, a])
          \<and> orZero (lastRequestTimes g a) = orZero (lastRequestTimes g b)
          \<and> orZero (lastRequestTimes g b) \<le> now
          \<and> orZero (requestCounts g a) = 2 * orZero (errorCounts g a)
          \<and> 0 < orZero (errorCounts g a)
          \<and> orZero (errorCounts g b) = 0
        \<longrightarrow> getBestClient now g = Some b)"
proof (intro conjI impI)
  show "score now g idx
     = dbl (dbl (dbl (1 - (if 0 < orZero (requestCounts g idx)
                           then dbl (of_nat (orZero (errorCounts g idx))
                                      / of_nat (orZero (requestCounts g idx)))
                           else 0)) * 100)
            + min (dbl (of_int (now - orZero (lastRequestTimes g idx)) / 1000)) 60)"
    by (simp add: score_def Let_def)
next
  assume "0 < orZero (requestCounts g idx) \<or> orZero (errorCounts g idx) = 0"
  then show "score now g idx = specScore now g idx" by (rule score_spec)
next
  assume "orZero (errorCounts g idx) \<le> orZero (requestCounts g idx)
          \<and> orZero (lastRequestTimes g idx) \<le> now"
  then show "0 \<le> score now g idx" using score_nonneg by blast
next
  assume "\<exists>c \<in> set (clients g). - 1 < score now g c"
  then show "\<exists>i < length (clients g). getBestClient now g = Some (clients g ! i)
           \<and> (\<forall>j < i. score now g (clients g ! j) < score now g (clients g ! i))
           \<and> (\<forall>j < length (clients g).
                 score now g (clients g ! j) \<le> score now g (clients g ! i))"
    by (rule getBestClient_first_max)
next
  assume "clients g \<noteq> [] \<and> (\<forall>c \<in> set (clients g). score now g c \<le> - 1)"
  then show "getBestClient now g = Some (hd (clients g))"
    using getBestClient_fallback by blast
next
  assume "(clients g = [a, b] \<or> clients g = [b, a])
          \<and> orZero (lastRequestTimes g a) = orZero (lastRequestTimes g b)
          \<and> orZero (lastRequestTimes g b) \<le> now
          \<and> orZero (requestCounts g a) = 2 * orZero (errorCounts g a)
          \<and> 0 < orZero (errorCounts g a)
          \<and> orZero (errorCounts g b) = 0"
  then show "getBestClient now g = Some b" using getBestClient_two by blast
qed

theorem getBestClient_selects_witness:
  "getBestClient 20000
     \<lparr>clients = [0, 1], requestCounts = [0 \<mapsto> 2, 1 \<mapsto> 3], errorCounts = [0 \<mapsto> 1, 1 \<mapsto> 0],
      lastRequestTimes = [0 \<mapsto> 5000, 1 \<mapsto> 5000]\<rparr> = Some 1
   \<and> score 100000
     \<lparr>clients = [0, 1], requestCounts = [0 \<mapsto> 4, 1 \<mapsto> 10], errorCounts = [0 \<mapsto> 3, 1 \<mapsto> 7],
      lastRequestTimes = [0 \<mapsto> 95000, 1 \<mapsto> 100000]\<rparr> 0 = 30
   \<and> score 100000
     \<lparr>clients = [0, 1], requestCounts = [0 \<mapsto> 4, 1 \<mapsto> 10], errorCounts = [0 \<mapsto> 3, 1 \<mapsto> 7],
      lastRequestTimes = [0 \<mapsto> 95000, 1 \<mapsto> 100000]\<rparr> 1 = 8444249301319681 / 281474976710656
   \<and> getBestClient 100000
     \<lparr>clients = [0, 1], requestCounts = [0 \<mapsto> 4, 1 \<mapsto> 10], errorCounts = [0 \<mapsto> 3, 1 \<mapsto> 7],
      lastRequestTimes = [0 \<mapsto> 95000, 1 \<mapsto> 100000]\<rparr> = Some 1"
proof -
  let ?g = "\<lparr>clients = [0, 1], requestCounts = [0 \<mapsto> 2, 1 \<mapsto> 3], errorCounts = [0 \<mapsto> 1, 1 \<mapsto> 0],
      lastRequestTimes = [0 \<mapsto> 5000, 1 \<mapsto> 5000]\<rparr>"
  let ?r = "\<lparr>clients = [0, 1], requestCounts = [0 \<mapsto> 4, 1 \<mapsto> 10], errorCounts = [0 \<mapsto> 3, 1 \<mapsto> 7],
      lastRequestTimes = [0 \<mapsto> 95000, 1 \<mapsto> 100000]\<rparr>"
  have h: "(clients ?g = [0, 1] \<or> clients ?g = [1, 0])
          \<and> orZero (lastRequestTimes ?g 0) = orZero (lastRequestTimes ?g 1)
          \<and> orZero (lastRequestTimes ?g 1) \<le> 20000
          \<and> orZero (requestCounts ?g 0) = 2 * orZero (errorCounts ?g 0)
          \<and> 0 < orZero (errorCounts ?g 0)
          \<and> orZero (errorCounts ?g 1) = 0"
    by (simp add: orZero_def)
  from getBestClient_selects[of 20000 ?g 0 0 1] h
  have w: "getBestClient 20000 ?g = Some 1" by blast
  have s0: "score 100000 ?r 0 = 30"
    by (simp add: score_def orZero_def Let_def)
  have "score 100000 ?r 1 = dbl (dbl (dbl (1 - dbl (7 / 10)) * 100))"
    by (simp add: score_def orZero_def Let_def)
  then have s1: "score 100000 ?r 1 = 8444249301319681 / 281474976710656"
    unfolding dbl_seven_tenths .
  have c: "- 1 < (30::rat)" "(30::rat) < 8444249301319681 / 281474976710656" by simp_all
  have b: "getBestClient 100000 ?r = Some 1"
    by (simp only: getBestClient_def geminiClient.select_convs list.simps bestLoop.simps
        s0 s1 c if_True fst_conv)
  show ?thesis by (intro conjI w s0 s1 b)
qed

section \<open>Retry loop\<close>

lemma bestLoop_Some: "\<exists>c. fst (bestLoop now g cs (Some b, s)) = Some c"
  by (induction cs arbitrary: b s) auto

lemma getBestClient_Some: "clients g \<noteq> [] \<Longrightarrow> \<exists>c. getBestClient now g = Some c"
  unfolding getBestClient_def by (cases "clients g") (simp_all add: bestLoop_Some)

lemma clients_updateRequestCount [simp]: "clients (updateRequestCount c g) = clients g"
  by (simp add: updateRequestCount_def)

lemma clients_updateErrorCount [simp]: "clients (updateErrorCount c g) = clients g"
  by (simp add: updateErrorCount_def)

lemma clients_updateLastRequestTime [simp]: "clients (updateLastRequestTime t c g) = clients g"
  by (simp add: updateLastRequestTime_def)

lemma attemptBody_success:
  assumes "clients g \<noteq> []" and "attemptResult (response e) = Inr t"
  shows "\<exists>c g'. attemptBody d r e k g = (Return t, g', [Request k c]) \<and> clients g' = clients g"
proof -
  from getBestClient_Some[OF assms(1)] obtain c where "getBestClient (tSelect e) g = Some c" by blast
  then show ?thesis using assms(2) by (simp add: attemptBody_def Let_def)
qed

lemma attemptBody_failure:
  assumes "clients g \<noteq> []" and "attemptResult (response e) = Inl msg"
  shows "\<exists>c g'. clients g' = clients g \<and> attemptBody d r e k g =
           (if \<not> isRetryableError msg \<and> int k = r then (Break msg, g', [Request k c])
            else (Continue msg, g',
                  Request k c # (if int k < r then [Sleep (d * 2 ^ k)] else [])))"
proof -
  from getBestClient_Some[OF assms(1)] obtain c where c: "getBestClient (tSelect e) g = Some c"
    by blast
  have "clients (updateRequestCount c g) \<noteq> []" using assms(1) by simp
  from getBestClient_Some[OF this] obtain c' where
    c': "getBestClient (tSettle e) (updateRequestCount c g) = Some c'" by blast
  have "clients (updateErrorCount c' (updateRequestCount c g)) = clients g" by simp
  then show ?thesis using assms(2) c c'
    by (intro exI[of _ c] exI[of _ "updateErrorCount c' (updateRequestCount c g)"])
       (simp add: attemptBody_def Let_def)
qed

lemma timeline_append [simp]: "timeline (a @ b) = timeline a @ timeline b"
  by (simp add: timeline_def)

lemma requestsOf_append [simp]: "requestsOf (a @ b) = requestsOf a @ requestsOf b"
  by (induction a rule: requestsOf.induct) auto

lemma sleepsOf_append [simp]: "sleepsOf (a @ b) = sleepsOf a @ sleepsOf b"
  by (induction a rule: sleepsOf.induct) auto

lemma retrySchedule_0 [simp]: "retrySchedule d a 0 = []"
  by (simp add: retrySchedule_def)

lemma retrySchedule_Suc:
  "retrySchedule d a (Suc n) = Inl a # Inr (d * 2 ^ a) # retrySchedule d (Suc a) n"
  by (simp add: retrySchedule_def upt_conv_Cons)


declare generateLoop.simps [simp del]

lemma failed_iff: "failed env j = (\<exists>msg. attemptResult (response (env j)) = Inl msg)"
  by (auto simp: failed_def split: sum.splits)

lemma generateLoop_exit:
  "\<not> int a \<le> r \<Longrightarrow> generateLoop d r env a le g tr = (Inl (allFailed le), g, tr)"
  by (subst generateLoop.simps) simp

lemma generateLoop_success:
  assumes "clients g \<noteq> []" and "int (a + n) \<le> r"
    and "\<forall>j. a \<le> j \<and> j < a + n \<longrightarrow> failed env j"
    and "attemptResult (response (env (a + n))) = Inr t"
  shows "\<exists>g' tr'. generateLoop d r env a le g tr = (Inr t, g', tr')
           \<and> timeline tr' = timeline tr @ retrySchedule d a n @ [Inl (a + n)]
           \<and> requestsOf tr' = requestsOf tr @ [a..<Suc (a + n)]
           \<and> sleepsOf tr' = sleepsOf tr @ map (\<lambda>j. d * 2 ^ j) [a..<a + n]"
  using assms
proof (induction n arbitrary: a le g tr)
  case 0
  from attemptBody_success[OF "0.prems"(1), of "env a" t d r a] "0.prems"(4)
  obtain c g' where b: "attemptBody d r (env a) a g = (Return t, g', [Request a c])" by auto
  have "generateLoop d r env a le g tr = (Inr t, g', tr @ [Request a c])"
    using "0.prems"(2) b by (subst generateLoop.simps) simp
  then show ?case by (simp add: timeline_def)
next
  case (Suc n)
  from Suc.prems(3) have "failed env a" by simp
  then obtain msg where msg: "attemptResult (response (env a)) = Inl msg"
    by (auto simp: failed_iff)
  have lt: "int a < r" using Suc.prems(2) by simp
  from attemptBody_failure[OF Suc.prems(1) msg, of d r a] lt
  obtain c g' where b: "clients g' = clients g"
      "attemptBody d r (env a) a g = (Continue msg, g', [Request a c, Sleep (d * 2 ^ a)])"
    by auto
  let ?tr = "tr @ [Request a c, Sleep (d * 2 ^ a)]"
  have step: "generateLoop d r env a le g tr = generateLoop d r env (Suc a) (Some msg) g' ?tr"
    using lt b(2) by (subst generateLoop.simps) simp
  have p1: "clients g' \<noteq> []" using b(1) Suc.prems(1) by simp
  have p2: "int (Suc a + n) \<le> r" using Suc.prems(2) by simp
  have p3: "\<forall>j. Suc a \<le> j \<and> j < Suc a + n \<longrightarrow> failed env j" using Suc.prems(3) by simp
  have p4: "attemptResult (response (env (Suc a + n))) = Inr t" using Suc.prems(4) by simp
  from Suc.IH[OF p1 p2 p3 p4, of "Some msg" ?tr]
  obtain g'' tr' where r: "generateLoop d r env (Suc a) (Some msg) g' ?tr = (Inr t, g'', tr')"
      "timeline tr' = timeline ?tr @ retrySchedule d (Suc a) n @ [Inl (Suc a + n)]"
      "requestsOf tr' = requestsOf ?tr @ [Suc a..<Suc (Suc a + n)]"
      "sleepsOf tr' = sleepsOf ?tr @ map (\<lambda>j. d * 2 ^ j) [Suc a..<Suc a + n]"
    by blast
  have u1: "[a..<Suc (a + Suc n)] = a # [Suc a..<Suc (Suc a + n)]" by (simp add: upt_conv_Cons)
  have u2: "[a..<a + Suc n] = a # [Suc a..<Suc a + n]" by (simp add: upt_conv_Cons)
  show ?case unfolding step r(1) u1 u2 retrySchedule_Suc
    using r(2,3,4) by (simp add: timeline_def)
qed

lemma generateLoop_all_fail:
  assumes "clients g \<noteq> []" and "int (a + n) = r"
    and "\<forall>j. a \<le> j \<and> j \<le> a + n \<longrightarrow> failed env j"
  shows "\<exists>g' tr' msg. generateLoop d r env a le g tr = (Inl (allFailed (Some msg)), g', tr')
           \<and> attemptResult (response (env (a + n))) = Inl msg
           \<and> timeline tr' = timeline tr @ retrySchedule d a n @ [Inl (a + n)]
           \<and> requestsOf tr' = requestsOf tr @ [a..<Suc (a + n)]
           \<and> sleepsOf tr' = sleepsOf tr @ map (\<lambda>j. d * 2 ^ j) [a..<a + n]"
  using assms
proof (induction n arbitrary: a le g tr)
  case 0
  from "0.prems"(3) obtain msg where msg: "attemptResult (response (env a)) = Inl msg"
    by (auto simp: failed_iff)
  have eq: "int a = r" using "0.prems"(2) by simp
  from attemptBody_failure[OF "0.prems"(1) msg, of d r a]
  obtain c g' where b0:
      "attemptBody d r (env a) a g =
         (if \<not> isRetryableError msg \<and> int a = r then (Break msg, g', [Request a c])
          else (Continue msg, g',
                Request a c # (if int a < r then [Sleep (d * 2 ^ a)] else [])))"
    by blast
  have b: "attemptBody d r (env a) a g =
         (if \<not> isRetryableError msg then (Break msg, g', [Request a c])
          else (Continue msg, g', [Request a c]))"
    unfolding b0 using eq by simp
  have "generateLoop d r env a le g tr = (Inl (allFailed (Some msg)), g', tr @ [Request a c])"
  proof (cases "isRetryableError msg")
    case True
    have "generateLoop d r env a le g tr
            = generateLoop d r env (Suc a) (Some msg) g' (tr @ [Request a c])"
      using eq b True by (subst generateLoop.simps) simp
    also have "\<dots> = (Inl (allFailed (Some msg)), g', tr @ [Request a c])"
      using eq by (intro generateLoop_exit) simp
    finally show ?thesis .
  next
    case False
    then show ?thesis using eq b by (subst generateLoop.simps) simp
  qed
  then show ?case using msg by (simp add: timeline_def)
next
  case (Suc n)
  from Suc.prems(3) have "failed env a" by simp
  then obtain msg where msg: "attemptResult (response (env a)) = Inl msg"
    by (auto simp: failed_iff)
  have lt: "int a < r" using Suc.prems(2) by simp
  from attemptBody_failure[OF Suc.prems(1) msg, of d r a] lt
  obtain c g' where b: "clients g' = clients g"
      "attemptBody d r (env a) a g = (Continue msg, g', [Request a c, Sleep (d * 2 ^ a)])"
    by auto
  let ?tr = "tr @ [Request a c, Sleep (d * 2 ^ a)]"
  have step: "generateLoop d r env a le g tr = generateLoop d r env (Suc a) (Some msg) g' ?tr"
    using lt b(2) by (subst generateLoop.simps) simp
  have p1: "clients g' \<noteq> []" using b(1) Suc.prems(1) by simp
  have p2: "int (Suc a + n) = r" using Suc.prems(2) by simp
  have p3: "\<forall>j. Suc a \<le> j \<and> j \<le> Suc a + n \<longrightarrow> failed env j" using Suc.prems(3) by simp
  from Suc.IH[OF p1 p2 p3, of "Some msg" ?tr]
  obtain g'' tr' m' where r:
      "generateLoop d r env (Suc a) (Some msg) g' ?tr = (Inl (allFailed (Some m')), g'', tr')"
      "attemptResult (response (env (Suc a + n))) = Inl m'"
      "timeline tr' = timeline ?tr @ retrySchedule d (Suc a) n @ [Inl (Suc a + n)]"
      "requestsOf tr' = requestsOf ?tr @ [Suc a..<Suc (Suc a + n)]"
      "sleepsOf tr' = sleepsOf ?tr @ map (\<lambda>j. d * 2 ^ j) [Suc a..<Suc a + n]"
    by blast
  have u1: "[a..<Suc (a + Suc n)] = a # [Suc a..<Suc (Suc a + n)]" by (simp add: upt_conv_Cons)
  have u2: "[a..<a + Suc n] = a # [Suc a..<Suc a + n]" by (simp add: upt_conv_Cons)
  show ?case unfolding step r(1) u1 u2 retrySchedule_Suc
    using r(2,3,4,5) by (simp add: timeline_def)
qed


lemma attemptResult_not_blank: "attemptResult x = Inr t \<Longrightarrow> \<not> isBlank t"
  by (auto simp: attemptResult_def split: backendOutcome.splits if_splits)

lemma backoff_increasing:
  assumes "0 < (d::int)"
  shows "sorted_wrt (<) (map (\<lambda>j. d * 2 ^ j) [a..<b])"
proof -
  have "\<And>i j. i < j \<Longrightarrow> d * 2 ^ i < d * 2 ^ j"
    using assms by (simp add: power_strict_increasing)
  then show ?thesis
    by (simp add: sorted_wrt_map sorted_wrt_mono_rel[OF _ sorted_wrt_upt])
qed

lemma generateLoop_shape:
  assumes "clients g \<noteq> []"
  shows "\<exists>n. int n \<le> max 0 (r + 1)
           \<and> requestsOf (snd (snd (generateLoop d r env 0 None g []))) = [0..<n]
           \<and> sleepsOf (snd (snd (generateLoop d r env 0 None g [])))
               = map (\<lambda>j. d * 2 ^ j) [0..<n - 1]
           \<and> (\<forall>t. fst (generateLoop d r env 0 None g []) = Inr t \<longrightarrow> \<not> isBlank t)"
proof (cases "0 \<le> r")
  case False
  then have "generateLoop d r env 0 None g [] = (Inl (allFailed None), g, [])"
    by (intro generateLoop_exit) simp
  then show ?thesis by (intro exI[of _ 0]) simp
next
  case True
  show ?thesis
  proof (cases "\<forall>j. int j \<le> r \<longrightarrow> failed env j")
    case allf: True
    have a: "int (0 + nat r) = r" using True by simp
    have b: "\<forall>j. 0 \<le> j \<and> j \<le> 0 + nat r \<longrightarrow> failed env j" using allf True by auto
    from generateLoop_all_fail[OF assms a b, of d None "[]"]
    obtain g' tr' msg where
      "generateLoop d r env 0 None g [] = (Inl (allFailed (Some msg)), g', tr')"
      "requestsOf tr' = [0..<Suc (nat r)]"
      "sleepsOf tr' = map (\<lambda>j. d * 2 ^ j) [0..<nat r]"
      by auto
    then show ?thesis using True by (intro exI[of _ "Suc (nat r)"]) simp
  next
    case False
    then obtain j where j: "int j \<le> r" "\<not> failed env j" by blast
    define k where "k = (LEAST j. int j \<le> r \<and> \<not> failed env j)"
    have k: "int k \<le> r" "\<not> failed env k"
      using LeastI[of "\<lambda>j. int j \<le> r \<and> \<not> failed env j" j] j unfolding k_def by auto
    have least: "\<forall>i. 0 \<le> i \<and> i < 0 + k \<longrightarrow> failed env i"
    proof (intro allI impI)
      fix i assume i: "0 \<le> i \<and> i < 0 + k"
      then have "\<not> (int i \<le> r \<and> \<not> failed env i)"
        using not_less_Least[of i "\<lambda>j. int j \<le> r \<and> \<not> failed env j"] unfolding k_def by simp
      moreover have "int i \<le> r" using i k(1) by simp
      ultimately show "failed env i" by simp
    qed
    from k(2) obtain t where t: "attemptResult (response (env (0 + k))) = Inr t"
      by (auto simp: failed_def split: sum.splits)
    have kr: "int (0 + k) \<le> r" using k(1) by simp
    from generateLoop_success[OF assms kr least t, of d None "[]"]
    obtain g' tr' where
      "generateLoop d r env 0 None g [] = (Inr t, g', tr')"
      "requestsOf tr' = [0..<Suc k]"
      "sleepsOf tr' = map (\<lambda>j. d * 2 ^ j) [0..<k]"
      by auto
    then show ?thesis using k(1) attemptResult_not_blank[OF t]
      by (intro exI[of _ "Suc k"]) simp
  qed
qed

declare isBlank.simps [simp del]

lemma startsWith_iff: "startsWith s p = (\<exists>r. s = p @ r)"
  by (induction s p rule: startsWith.induct) auto

lemma jsWhiteSpace_nonempty: "w \<in> set jsWhiteSpace \<Longrightarrow> w \<noteq> []"
  by (auto simp: jsWhiteSpace_def)

lemma isBlank_concat:
  assumes "set ws \<subseteq> set jsWhiteSpace"
  shows "isBlank (concat ws)"
  using assms
proof (induction ws)
  case Nil
  then show ?case by (simp add: isBlank.simps)
next
  case (Cons w ws)
  have w: "w \<in> set jsWhiteSpace" "w \<noteq> []" using Cons.prems jsWhiteSpace_nonempty by auto
  from w(2) obtain c cs where c: "w @ concat ws = c # cs" by (cases w) auto
  have ih: "isBlank (concat ws)" using Cons by simp
  have "startsWith (c # cs) w \<and> w \<noteq> [] \<and> isBlank (drop (length w) (c # cs))"
    using w ih unfolding c[symmetric] by (simp add: startsWith_iff)
  then have "isBlank (c # cs)" using w(1) by (auto simp: isBlank.simps list_ex_iff)
  then show ?case using c by simp
qed

lemma isBlank_decompose: "isBlank t \<Longrightarrow> \<exists>ws. set ws \<subseteq> set jsWhiteSpace \<and> t = concat ws"
proof (induction t rule: isBlank.induct)
  case 1
  have "set [] \<subseteq> set jsWhiteSpace \<and> [] = concat ([] :: string list)" by simp
  then show ?case by blast
next
  case (2 c cs)
  from "2.prems" obtain w where w: "w \<in> set jsWhiteSpace" "startsWith (c # cs) w" "w \<noteq> []"
      "isBlank (drop (length w) (c # cs))"
    by (auto simp: isBlank.simps list_ex_iff split: if_splits)
  from "2.IH"[OF w(1) _ w(4)] w(2,3) obtain ws where
    ws: "set ws \<subseteq> set jsWhiteSpace" "drop (length w) (c # cs) = concat ws" by blast
  from w(2) obtain r where r: "c # cs = w @ r" by (auto simp: startsWith_iff)
  then have "drop (length w) (c # cs) = r" by simp
  then have "set (w # ws) \<subseteq> set jsWhiteSpace \<and> c # cs = concat (w # ws)"
    using ws w(1) r by simp
  then show ?case by blast
qed

lemma isBlank_iff: "isBlank t = (\<exists>ws. set ws \<subseteq> set jsWhiteSpace \<and> t = concat ws)"
  using isBlank_decompose isBlank_concat by blast


lemma attemptResult_Text:
  "(attemptResult (Text t) = Inl ''Empty response from Gemini'')
     = (\<exists>ws. set ws \<subseteq> set jsWhiteSpace \<and> t = concat ws)"
  "(attemptResult (Text t) = Inr t) = (\<not> (\<exists>ws. set ws \<subseteq> set jsWhiteSpace \<and> t = concat ws))"
  by (simp_all add: attemptResult_def isBlank_iff)

text \<open>
  C3, as claimed, fails for a call that passes \<open>maxRetries = 0\<close>: \<open>maxRetries ||
  config.gemini.maxRetries\<close> takes the configured budget for 0 as it does for \<open>null\<close>, so
  with a configured budget of 3 the call issues four requests, not \<open>maxRetries + 1 = 1\<close>.
\<close>

theorem generateContent_zero_budget_counterexample:
  "requestsOf (snd (snd (generateContent 3 1000 (Some 0)
          (\<lambda>k. \<lparr>tSelect = 5000, response = Throws ''Request timeout'', tSettle = 35000\<rparr>)
          (initializeClients 1))))
     = [0, 1, 2, 3]"
proof -
  let ?env = "\<lambda>k::nat. \<lparr>tSelect = 5000, response = Throws ''Request timeout'', tSettle = 35000\<rparr>"
  have c: "clients (initializeClients 1) \<noteq> []" by (simp add: initializeClients_def)
  have a: "int (0 + 3) = 3" by simp
  have f: "\<forall>j. 0 \<le> j \<and> j \<le> 0 + 3 \<longrightarrow> failed ?env j"
    by (simp add: failed_def attemptResult_def)
  have u: "[0..<Suc (0 + 3)] = [0, 1, 2, 3]" by (simp add: upt_rec)
  from generateLoop_all_fail[OF c a f, of 1000 None "[]"]
  have "requestsOf (snd (snd (generateLoop 1000 3 ?env 0 None (initializeClients 1) [])))
          = [0..<Suc (0 + 3)]"
    by auto
  then show ?thesis unfolding u by (simp add: generateContent_def retriesOf_def)
qed

text \<open>
  C3, amended. A call of \<open>generateContent\<close> issues at most \<open>retries + 1\<close> requests, where
  the budget \<open>retries\<close> is the call's \<open>maxRetries\<close> when that is given and not 0, and the
  configured \<open>config.gemini.maxRetries\<close> otherwise. When attempt \<open>k\<close> is the first to yield
  a text that is not blank, that text is returned and the trace ends with the request of
  attempt \<open>k\<close>: no further attempt is made. A text is blank exactly when it is a sequence
  of the white space characters and line terminators that \<open>trim\<close> removes, the empty text
  included; a blank text is a failed attempt (the error \<open>Empty response from Gemini\<close>)
  and is never returned. Each failed attempt \<open>j\<close> that is followed by another is followed
  first by a sleep of \<open>retryDelay * 2 ^ j\<close>, so for a positive \<open>retryDelay\<close> the delays of
  a call are strictly increasing. (The witness is the claim's example, budget 3 with
  timeouts on the first two attempts and the text of the third returned after delays of
  1000 and 2000, and the same course with a no-break space and a blank line as the
  first two responses.)
\<close>

theorem generateContent_retry:
  assumes "clients g \<noteq> []"
  shows "retriesOf cfgMaxRetries maxRetries
           = (case maxRetries of None \<Rightarrow> cfgMaxRetries
              | Some n \<Rightarrow> if n = 0 then cfgMaxRetries else n)
    \<and> int (length (requestsOf (snd (snd (generateContent cfgMaxRetries d maxRetries env g)))))
           \<le> max 0 (retriesOf cfgMaxRetries maxRetries + 1)
    \<and> (\<forall>k t. int k \<le> retriesOf cfgMaxRetries maxRetries \<and> (\<forall>j < k. failed env j)
            \<and> attemptResult (response (env k)) = Inr t \<longrightarrow>
          fst (generateContent cfgMaxRetries d maxRetries env g) = Inr t
          \<and> timeline (snd (snd (generateContent cfgMaxRetries d maxRetries env g)))
              = retrySchedule d 0 k @ [Inl k])
    \<and> (\<forall>t. (attemptResult (Text t) = Inl ''Empty response from Gemini'')
              = (\<exists>ws. set ws \<subseteq> set jsWhiteSpace \<and> t = concat ws))
    \<and> (\<forall>t. (attemptResult (Text t) = Inr t)
              = (\<not> (\<exists>ws. set ws \<subseteq> set jsWhiteSpace \<and> t = concat ws)))
    \<and> (\<forall>j t. response (env j) = Text t
              \<and> (\<exists>ws. set ws \<subseteq> set jsWhiteSpace \<and> t = concat ws) \<longrightarrow> failed env j)
    \<and> (\<forall>t. fst (generateContent cfgMaxRetries d maxRetries env g) = Inr t \<longrightarrow>
              \<not> (\<exists>ws. set ws \<subseteq> set jsWhiteSpace \<and> t = concat ws))
    \<and> sleepsOf (snd (snd (generateContent cfgMaxRetries d maxRetries env g)))
         = map (\<lambda>j. d * 2 ^ j)
             [0..<length (requestsOf (snd (snd (generateContent cfgMaxRetries d maxRetries env g)))) - 1]
    \<and> (0 < d \<longrightarrow>
          sorted_wrt (<) (sleepsOf (snd (snd (generateContent cfgMaxRetries d maxRetries env g)))))"
proof -
  let ?r = "retriesOf cfgMaxRetries maxRetries"
  let ?out = "generateLoop d ?r env 0 None g []"
  from generateLoop_shape[OF assms, of ?r d env] obtain n where
    n: "int n \<le> max 0 (?r + 1)" "requestsOf (snd (snd ?out)) = [0..<n]"
       "sleepsOf (snd (snd ?out)) = map (\<lambda>j. d * 2 ^ j) [0..<n - 1]"
       "\<forall>t. fst ?out = Inr t \<longrightarrow> \<not> isBlank t"
    by blast
  have c0: "?r = (case maxRetries of None \<Rightarrow> cfgMaxRetries
              | Some n \<Rightarrow> if n = 0 then cfgMaxRetries else n)"
    by (simp add: retriesOf_def)
  have c1: "int (length (requestsOf (snd (snd ?out)))) \<le> max 0 (?r + 1)"
    using n(1) by (simp add: n(2))
  have c2: "\<forall>k t. int k \<le> ?r \<and> (\<forall>j < k. failed env j)
            \<and> attemptResult (response (env k)) = Inr t \<longrightarrow>
          fst ?out = Inr t \<and> timeline (snd (snd ?out)) = retrySchedule d 0 k @ [Inl k]"
  proof (intro allI impI)
    fix k t
    assume a: "int k \<le> ?r \<and> (\<forall>j < k. failed env j) \<and> attemptResult (response (env k)) = Inr t"
    have a1: "int (0 + k) \<le> ?r" using a by simp
    have a2: "\<forall>j. 0 \<le> j \<and> j < 0 + k \<longrightarrow> failed env j" using a by simp
    have a3: "attemptResult (response (env (0 + k))) = Inr t" using a by simp
    from generateLoop_success[OF assms a1 a2 a3, of d None "[]"]
    show "fst ?out = Inr t \<and> timeline (snd (snd ?out)) = retrySchedule d 0 k @ [Inl k]"
      by (auto simp: timeline_def)
  qed
  have c3: "\<forall>t. (attemptResult (Text t) = Inl ''Empty response from Gemini'')
              = (\<exists>ws. set ws \<subseteq> set jsWhiteSpace \<and> t = concat ws)"
    using attemptResult_Text(1) by blast
  have c4: "\<forall>t. (attemptResult (Text t) = Inr t)
              = (\<not> (\<exists>ws. set ws \<subseteq> set jsWhiteSpace \<and> t = concat ws))"
    using attemptResult_Text(2) by blast
  have c5: "\<forall>j t. response (env j) = Text t
              \<and> (\<exists>ws. set ws \<subseteq> set jsWhiteSpace \<and> t = concat ws) \<longrightarrow> failed env j"
    by (auto simp: failed_def attemptResult_def isBlank_iff)
  have c6: "\<forall>t. fst ?out = Inr t \<longrightarrow> \<not> (\<exists>ws. set ws \<subseteq> set jsWhiteSpace \<and> t = concat ws)"
    using n(4) by (simp add: isBlank_iff)
  have c7: "sleepsOf (snd (snd ?out))
         = map (\<lambda>j. d * 2 ^ j) [0..<length (requestsOf (snd (snd ?out))) - 1]"
    by (simp add: n(2) n(3))
  have c8: "0 < d \<longrightarrow> sorted_wrt (<) (sleepsOf (snd (snd ?out)))"
    unfolding n(3) using backoff_increasing by blast
  show ?thesis
    unfolding generateContent_def by (intro conjI c0 c1 c2 c3 c4 c5 c6 c7 c8)
qed

theorem generateContent_retry_witness:
  "fst (generateContent 3 1000 (Some 3)
          (\<lambda>k. if k < 2 then \<lparr>tSelect = 5000, response = Throws ''Request timeout'', tSettle = 35000\<rparr>
                else \<lparr>tSelect = 40000, response = Text ''hello'', tSettle = 41000\<rparr>)
          (initializeClients 2)) = Inr ''hello''
   \<and> timeline (snd (snd (generateContent 3 1000 (Some 3)
          (\<lambda>k. if k < 2 then \<lparr>tSelect = 5000, response = Throws ''Request timeout'', tSettle = 35000\<rparr>
                else \<lparr>tSelect = 40000, response = Text ''hello'', tSettle = 41000\<rparr>)
          (initializeClients 2))))
       = [Inl 0, Inr 1000, Inl 1, Inr 2000, Inl 2]
   \<and> fst (generateContent 3 1000 None
          (\<lambda>k. if k = 0 then \<lparr>tSelect = 5000, response = Text [CHR 0xC2, CHR 0xA0], tSettle = 5400\<rparr>
                else if k = 1 then \<lparr>tSelect = 6400, response = Text [CHR 0x20, CHR 0x0A], tSettle = 6900\<rparr>
                else \<lparr>tSelect = 8900, response = Text ''hello'', tSettle = 9500\<rparr>)
          (initializeClients 2)) = Inr ''hello''
   \<and> timeline (snd (snd (generateContent 3 1000 None
          (\<lambda>k. if k = 0 then \<lparr>tSelect = 5000, response = Text [CHR 0xC2, CHR 0xA0], tSettle = 5400\<rparr>
                else if k = 1 then \<lparr>tSelect = 6400, response = Text [CHR 0x20, CHR 0x0A], tSettle = 6900\<rparr>
                else \<lparr>tSelect = 8900, response = Text ''hello'', tSettle = 9500\<rparr>)
          (initializeClients 2))))
       = [Inl 0, Inr 1000, Inl 1, Inr 2000, Inl 2]"
proof -
  let ?env = "\<lambda>k::nat. if k < 2
                then \<lparr>tSelect = 5000, response = Throws ''Request timeout'', tSettle = 35000\<rparr>
                else \<lparr>tSelect = 40000, response = Text ''hello'', tSettle = 41000\<rparr>"
  let ?envb = "\<lambda>k::nat. if k = 0 then \<lparr>tSelect = 5000, response = Text [CHR 0xC2, CHR 0xA0], tSettle = 5400\<rparr>
                else if k = 1 then \<lparr>tSelect = 6400, response = Text [CHR 0x20, CHR 0x0A], tSettle = 6900\<rparr>
                else \<lparr>tSelect = 8900, response = Text ''hello'', tSettle = 9500\<rparr>"
  have c: "clients (initializeClients 2) \<noteq> []" by (simp add: initializeClients_def)
  have nb: "\<not> isBlank ''hello''" "isBlank [CHR 0xC2, CHR 0xA0]" "isBlank [CHR 0x20, CHR 0x0A]"
    by (simp_all add: isBlank.simps jsWhiteSpace_def)
  have h: "int 2 \<le> retriesOf 3 (Some 3) \<and> (\<forall>j < 2. failed ?env j)
            \<and> attemptResult (response (?env 2)) = Inr ''hello''"
    by (simp add: retriesOf_def failed_def attemptResult_def nb)
  have hb: "int 2 \<le> retriesOf 3 None \<and> (\<forall>j < 2. failed ?envb j)
            \<and> attemptResult (response (?envb 2)) = Inr ''hello''"
    by (simp add: retriesOf_def failed_def attemptResult_def nb less_2_cases_iff)
  have s: "retrySchedule 1000 0 2 @ [Inl 2] = [Inl 0, Inr 1000, Inl 1, Inr 2000, Inl 2]"
    by (simp add: numeral_2_eq_2 retrySchedule_Suc)
  note th = generateContent_retry[OF c, THEN conjunct2, THEN conjunct2, THEN conjunct1, rule_format]
  from th[of 2 3 "Some 3" ?env "''hello''" 1000, OF h]
       th[of 2 3 None ?envb "''hello''" 1000, OF hb]
  show ?thesis unfolding s by simp
qed

text \<open>
  C4, as claimed, fails: the error \<open>API key not valid\<close> is not retryable, and yet with a
  budget of 3 the call sleeps and tries again after it, three times. The \<open>break\<close> of the
  source is guarded by \<open>!isRetryableError && attempt === retries\<close>.
\<close>

theorem generateContent_fatal_counterexample:
  "\<not> isRetryableError ''API key not valid''
   \<and> timeline (snd (snd (generateContent 3 1000 None
          (\<lambda>k. \<lparr>tSelect = 5000, response = Throws ''API key not valid'', tSettle = 5200\<rparr>)
          (initializeClients 1))))
       = [Inl 0, Inr 1000, Inl 1, Inr 2000, Inl 2, Inr 4000, Inl 3]"
proof -
  let ?env = "\<lambda>k::nat. \<lparr>tSelect = 5000, response = Throws ''API key not valid'', tSettle = 5200\<rparr>"
  have c: "clients (initializeClients 1) \<noteq> []" by (simp add: initializeClients_def)
  have a: "int (0 + 3) = 3" by simp
  have f: "\<forall>j. 0 \<le> j \<and> j \<le> 0 + 3 \<longrightarrow> failed ?env j"
    by (simp add: failed_def attemptResult_def)
  have s: "retrySchedule 1000 0 3 @ [Inl (0 + 3)]
             = [Inl 0, Inr 1000, Inl 1, Inr 2000, Inl 2, Inr 4000, Inl 3]"
    by (simp add: numeral_3_eq_3 retrySchedule_Suc)
  from generateLoop_all_fail[OF c a f, of 1000 None "[]"]
  have "timeline (snd (snd (generateLoop 1000 3 ?env 0 None (initializeClients 1) [])))
          = retrySchedule 1000 0 3 @ [Inl (0 + 3)]"
    by (auto simp: timeline_def)
  then have "timeline (snd (snd (generateContent 3 1000 None ?env (initializeClients 1))))
          = [Inl 0, Inr 1000, Inl 1, Inr 2000, Inl 2, Inr 4000, Inl 3]"
    unfolding s by (simp add: generateContent_def retriesOf_def)
  moreover have "\<not> isRetryableError ''API key not valid''"
    by (simp add: isRetryableError_def retryableErrors_def)
  ultimately show ?thesis by (rule conjI[rotated])
qed

text \<open>
  C4, amended. A non-retryable error ends the retry loop at once and without a backoff
  delay only on the final attempt of the budget (\<open>attempt = retries\<close>). On every earlier
  attempt a failure of either class is followed by the backoff delay
  \<open>retryDelay * 2 ^ attempt\<close> and by a further attempt. So a call all of whose attempts
  fail issues \<open>retries + 1\<close> requests, whatever the classes of the errors, and fails
  with the message of the last error.
\<close>

theorem generateContent_failure_policy:
  assumes "clients g \<noteq> []"
  shows "(attemptResult (response e) = Inl msg \<and> int k < r \<longrightarrow>
            (\<exists>c g'. attemptBody d r e k g
                      = (Continue msg, g', [Request k c, Sleep (d * 2 ^ k)])))
    \<and> (attemptResult (response e) = Inl msg \<and> int k = r \<and> \<not> isRetryableError msg \<longrightarrow>
            (\<exists>c g'. attemptBody d r e k g = (Break msg, g', [Request k c])))
    \<and> (attemptResult (response e) = Inl msg \<and> int k = r \<and> isRetryableError msg \<longrightarrow>
            (\<exists>c g'. attemptBody d r e k g = (Continue msg, g', [Request k c])))
    \<and> (0 \<le> retriesOf cfgMaxRetries maxRetries
          \<and> (\<forall>j. int j \<le> retriesOf cfgMaxRetries maxRetries \<longrightarrow> failed env j) \<longrightarrow>
            (\<exists>g' tr m. generateContent cfgMaxRetries d maxRetries env g
                          = (Inl (allFailed (Some m)), g', tr)
               \<and> attemptResult (response (env (nat (retriesOf cfgMaxRetries maxRetries)))) = Inl m
               \<and> timeline tr
                   = retrySchedule d 0 (nat (retriesOf cfgMaxRetries maxRetries))
                     @ [Inl (nat (retriesOf cfgMaxRetries maxRetries))]))"
proof (intro conjI impI)
  assume "attemptResult (response e) = Inl msg \<and> int k < r"
  then show "\<exists>c g'. attemptBody d r e k g = (Continue msg, g', [Request k c, Sleep (d * 2 ^ k)])"
    using attemptBody_failure[OF assms, of e msg d r k] by auto
next
  assume "attemptResult (response e) = Inl msg \<and> int k = r \<and> \<not> isRetryableError msg"
  then show "\<exists>c g'. attemptBody d r e k g = (Break msg, g', [Request k c])"
    using attemptBody_failure[OF assms, of e msg d r k] by auto
next
  assume "attemptResult (response e) = Inl msg \<and> int k = r \<and> isRetryableError msg"
  then show "\<exists>c g'. attemptBody d r e k g = (Continue msg, g', [Request k c])"
    using attemptBody_failure[OF assms, of e msg d r k] by auto
next
  let ?r = "retriesOf cfgMaxRetries maxRetries"
  assume h: "0 \<le> ?r \<and> (\<forall>j. int j \<le> ?r \<longrightarrow> failed env j)"
  have a: "int (0 + nat ?r) = ?r" using h by simp
  have f: "\<forall>j. 0 \<le> j \<and> j \<le> 0 + nat ?r \<longrightarrow> failed env j" using h by auto
  from generateLoop_all_fail[OF assms a f, of d None "[]"]
  show "\<exists>g' tr m. generateContent cfgMaxRetries d maxRetries env g
                          = (Inl (allFailed (Some m)), g', tr)
               \<and> attemptResult (response (env (nat ?r))) = Inl m
               \<and> timeline tr = retrySchedule d 0 (nat ?r) @ [Inl (nat ?r)]"
    unfolding generateContent_def by (auto simp: timeline_def)
qed

theorem generateContent_failure_policy_witness:
  "fst (generateContent 3 1000 (Some 1)
          (\<lambda>k. if k = 0
                then \<lparr>tSelect = 5000, response = Throws ''API key not valid'', tSettle = 5200\<rparr>
                else \<lparr>tSelect = 6300, response = Throws ''Request timeout'', tSettle = 36300\<rparr>)
          (initializeClients 1)) = Inl ''Gemini request failed: Request timeout''
   \<and> timeline (snd (snd (generateContent 3 1000 (Some 1)
          (\<lambda>k. if k = 0
                then \<lparr>tSelect = 5000, response = Throws ''API key not valid'', tSettle = 5200\<rparr>
                else \<lparr>tSelect = 6300, response = Throws ''Request timeout'', tSettle = 36300\<rparr>)
          (initializeClients 1))))
       = [Inl 0, Inr 1000, Inl 1]"
proof -
  let ?env = "\<lambda>k::nat. if k = 0
                then \<lparr>tSelect = 5000, response = Throws ''API key not valid'', tSettle = 5200\<rparr>
                else \<lparr>tSelect = 6300, response = Throws ''Request timeout'', tSettle = 36300\<rparr>"
  have c: "clients (initializeClients 1) \<noteq> []" by (simp add: initializeClients_def)
  have r: "retriesOf 3 (Some 1) = 1" by (simp add: retriesOf_def)
  have h: "0 \<le> retriesOf 3 (Some 1) \<and> (\<forall>j. int j \<le> retriesOf 3 (Some 1) \<longrightarrow> failed ?env j)"
    by (simp add: r failed_def attemptResult_def)
  have s: "retrySchedule 1000 0 (nat 1) @ [Inl (nat 1)] = [Inl 0, Inr 1000, Inl 1]"
    by (simp add: retrySchedule_Suc)
  from generateContent_failure_policy[where g = "initializeClients 1" and cfgMaxRetries = 3
      and maxRetries = "Some 1" and env = ?env and d = 1000, OF c,
      THEN conjunct2, THEN conjunct2, THEN conjunct2, rule_format, OF h]
  obtain g' tr m where o: "generateContent 3 1000 (Some 1) ?env (initializeClients 1)
                          = (Inl (allFailed (Some m)), g', tr)"
     "attemptResult (response (?env (nat (retriesOf 3 (Some 1))))) = Inl m"
     "timeline tr = retrySchedule 1000 0 (nat (retriesOf 3 (Some 1))) @ [Inl (nat (retriesOf 3 (Some 1)))]"
    by blast
  have m: "m = ''Request timeout''" using o(2) by (simp add: r attemptResult_def)
  show ?thesis unfolding o(1) using o(3) by (simp add: m r retrySchedule_Suc allFailed_def)
qed

section \<open>Error counts\<close>

text \<open>
  C5 does not hold in the source. The \<open>catch\<close> block does not know the client of the
  failed request (\<open>client\<close> is local to the \<open>try\<close> block): it asks \<open>getBestClient\<close>
  again, after the request count has changed and time has passed, and books the error on
  whatever that returns. Below, slot 1 issues the request at time 1000000 (score 160
  against 140 for slot 0, used 40 s before); the request times out 30 s later, when slot 0
  has reached the score 160 too and, being first, is returned: the error is counted on
  slot 0, and the count of slot 1 stays 0.
\<close>

theorem error_booked_on_other_slot:
  "snd (snd (generateContent 3 1000 None
       (\<lambda>k. if k = 0
             then \<lparr>tSelect = 1000000, response = Throws ''Request timeout'', tSettle = 1030000\<rparr>
             else \<lparr>tSelect = 1031000, response = Text ''ok'', tSettle = 1032000\<rparr>)
       \<lparr>clients = [0, 1], requestCounts = [0 \<mapsto> 1, 1 \<mapsto> 0], errorCounts = [0 \<mapsto> 0, 1 \<mapsto> 0],
        lastRequestTimes = [0 \<mapsto> 960000, 1 \<mapsto> 0]\<rparr>))
     = [Request 0 1, Sleep 1000, Request 1 1]
   \<and> errorCounts (fst (snd (generateContent 3 1000 None
       (\<lambda>k. if k = 0
             then \<lparr>tSelect = 1000000, response = Throws ''Request timeout'', tSettle = 1030000\<rparr>
             else \<lparr>tSelect = 1031000, response = Text ''ok'', tSettle = 1032000\<rparr>)
       \<lparr>clients = [0, 1], requestCounts = [0 \<mapsto> 1, 1 \<mapsto> 0], errorCounts = [0 \<mapsto> 0, 1 \<mapsto> 0],
        lastRequestTimes = [0 \<mapsto> 960000, 1 \<mapsto> 0]\<rparr>))) 1 = Some 0
   \<and> errorCounts (fst (snd (generateContent 3 1000 None
       (\<lambda>k. if k = 0
             then \<lparr>tSelect = 1000000, response = Throws ''Request timeout'', tSettle = 1030000\<rparr>
             else \<lparr>tSelect = 1031000, response = Text ''ok'', tSettle = 1032000\<rparr>)
       \<lparr>clients = [0, 1], requestCounts = [0 \<mapsto> 1, 1 \<mapsto> 0], errorCounts = [0 \<mapsto> 0, 1 \<mapsto> 0],
        lastRequestTimes = [0 \<mapsto> 960000, 1 \<mapsto> 0]\<rparr>))) 0 = Some 1"
proof -
  let ?e0 = "\<lparr>tSelect = 1000000, response = Throws ''Request timeout'', tSettle = 1030000\<rparr>"
  let ?e1 = "\<lparr>tSelect = 1031000, response = Text ''ok'', tSettle = 1032000\<rparr>"
  let ?env = "\<lambda>k::nat. if k = 0 then ?e0 else ?e1"
  let ?g = "\<lparr>clients = [0, 1], requestCounts = [0 \<mapsto> 1, 1 \<mapsto> 0], errorCounts = [0 \<mapsto> 0, 1 \<mapsto> 0],
        lastRequestTimes = [0 \<mapsto> 960000, 1 \<mapsto> 0::int]\<rparr>"
  let ?g1 = "updateErrorCount 0 (updateRequestCount 1 ?g)"
  let ?g2 = "updateLastRequestTime 1032000 1 (updateRequestCount 1 ?g1)"
  have s0: "getBestClient 1000000 ?g = Some 1"
    by (simp add: getBestClient_def score_def orZero_def Let_def)
  have s1: "getBestClient 1030000 (updateRequestCount 1 ?g) = Some 0"
    by (simp add: getBestClient_def score_def orZero_def Let_def updateRequestCount_def)
  have s2: "getBestClient 1031000 ?g1 = Some 1"
    by (simp add: getBestClient_def score_def orZero_def Let_def updateRequestCount_def
        updateErrorCount_def)
  have b0: "attemptBody 1000 3 ?e0 0 ?g = (Continue ''Request timeout'', ?g1, [Request 0 1, Sleep 1000])"
    by (simp add: attemptBody_def attemptResult_def s0[simplified] s1[simplified] Let_def isRetryableError_def
        retryableErrors_def)
  have b1: "attemptBody 1000 3 ?e1 (Suc 0) ?g1 = (Return ''ok'', ?g2, [Request (Suc 0) 1])"
    by (simp add: attemptBody_def attemptResult_def s2[simplified] Let_def isBlank.simps
        jsWhiteSpace_def)
  have "generateContent 3 1000 None ?env ?g
          = generateLoop 1000 3 ?env (Suc 0) (Some ''Request timeout'') ?g1 [Request 0 1, Sleep 1000]"
    unfolding generateContent_def retriesOf_def
    by (subst generateLoop.simps) (simp add: b0[simplified])
  also have "\<dots> = (Inr ''ok'', ?g2, [Request 0 1, Sleep 1000, Request 1 1])"
    by (subst generateLoop.simps) (simp add: b1[simplified])
  finally show ?thesis
    by (simp add: updateRequestCount_def updateErrorCount_def updateLastRequestTime_def orZero_def)
qed

section \<open>One worker per sender\<close>

lemma inv_newService: "dispatcherInv (newService bn)"
  by (simp add: dispatcherInv_def newService_def)

lemma inv_queueMessage:
  assumes "dispatcherInv svc"
  shows "dispatcherInv (queueMessage m svc)"
proof (cases "sender m \<in> processingMessages svc")
  case True
  then show ?thesis using assms
    by (auto simp: dispatcherInv_def queueMessage_def Let_def)
next
  case False
  then have "messageQueue svc (sender m) = None" using assms by (auto simp: dispatcherInv_def)
  then show ?thesis using assms False
    by (auto simp: dispatcherInv_def queueMessage_def processQueue_def whileLoop_def Let_def)
qed

lemma distinct_remove_nth:
  assumes "distinct (map fst ws)" and "i < length ws"
  shows "distinct (map fst (take i ws @ drop (Suc i) ws))"
    and "set (map fst (take i ws @ drop (Suc i) ws)) = set (map fst ws) - {fst (ws ! i)}"
proof -
  have ws: "ws = take i ws @ ws ! i # drop (Suc i) ws"
    using assms(2) by (simp add: id_take_nth_drop)
  have d: "distinct (map fst (take i ws @ ws ! i # drop (Suc i) ws))"
    using assms(1) ws by simp
  then show "distinct (map fst (take i ws @ drop (Suc i) ws))" by auto
  have "set (map fst ws) = set (map fst (take i ws @ ws ! i # drop (Suc i) ws))"
    using ws by simp
  then show "set (map fst (take i ws @ drop (Suc i) ws)) = set (map fst ws) - {fst (ws ! i)}"
    using d by auto
qed

lemma inv_settle:
  assumes "dispatcherInv svc"
  shows "dispatcherInv (settle i env svc)"
proof (cases "i < length (workers svc)")
  case False
  then show ?thesis using assms by (simp add: settle_def)
next
  case True
  obtain s m where w: "workers svc ! i = (s, m)" by (cases "workers svc ! i")
  obtain res rl' where h: "handleSingleMessage (botName svc) m env (rateLimiter svc) = (res, rl')"
    by (cases "handleSingleMessage (botName svc) m env (rateLimiter svc)")
  let ?ws = "take i (workers svc) @ drop (Suc i) (workers svc)"
  let ?svc1 = "svc\<lparr>workers := ?ws, rateLimiter := rl', handled := handled svc @ [(m, res)]\<rparr>"
  have d: "distinct (map fst (workers svc))" using assms by (simp add: dispatcherInv_def)
  have d1: "distinct (map fst ?ws)" using distinct_remove_nth(1)[OF d True] .
  have s1: "set (map fst ?ws) = processingMessages svc - {s}"
    using distinct_remove_nth(2)[OF d True] w assms by (simp add: dispatcherInv_def)
  have sp: "s \<in> processingMessages svc"
    using assms True w by (auto simp: dispatcherInv_def) (metis fst_conv nth_mem image_eqI)
  have q: "\<forall>s'. messageQueue svc s' \<noteq> None \<longrightarrow> s' \<in> processingMessages svc"
    using assms unfolding dispatcherInv_def by blast
  have fin: "dispatcherInv (finallyBlock s ?svc1)"
    using d1 s1 q by (auto simp: dispatcherInv_def finallyBlock_def)
  have loop: "dispatcherInv (whileLoop s ?svc1)"
  proof (cases "messageQueue svc s")
    case None
    then show ?thesis using fin by (simp add: whileLoop_def)
  next
    case (Some q')
    show ?thesis
    proof (cases q')
      case Nil
      then show ?thesis using fin Some by (simp add: whileLoop_def)
    next
      case (Cons m' q'')
      have "s \<notin> set (map fst ?ws)" using s1 by simp
      then show ?thesis using Some Cons d1 s1 sp q
        by (auto simp: whileLoop_def dispatcherInv_def)
    qed
  qed
  have "settle i env svc = (case res of Inr _ \<Rightarrow> whileLoop s ?svc1 | Inl err \<Rightarrow> finallyBlock s ?svc1)"
    using True w h by (simp add: settle_def Let_def)
  then show ?thesis using fin loop by (cases res) simp_all
qed

lemma inv_run: "dispatcherInv (run bn evs)"
proof -
  have "dispatcherInv svc \<Longrightarrow> dispatcherInv (foldl step svc evs)" for svc
  proof (induction evs arbitrary: svc)
    case Nil
    then show ?case by simp
  next
    case (Cons e evs)
    have "dispatcherInv (step svc e)"
      using Cons.prems by (cases e) (simp_all add: inv_queueMessage inv_settle)
    then show ?case using Cons.IH by simp
  qed
  then show ?thesis unfolding run_def using inv_newService by blast
qed


lemma activeWorkers_distinct:
  assumes "distinct (map fst ws)"
  shows "length (filter (\<lambda>w. fst w = s) ws) = (if s \<in> set (map fst ws) then 1 else 0)"
  using assms
proof (induction ws)
  case Nil
  then show ?case by simp
next
  case (Cons w ws)
  then show ?case by (cases "fst w = s") (auto simp: image_iff)
qed

lemma activeWorkers_inv:
  assumes "dispatcherInv svc"
  shows "activeWorkers svc s = (if s \<in> processingMessages svc then 1 else 0)"
  using assms activeWorkers_distinct[of "workers svc" s]
  by (simp add: dispatcherInv_def activeWorkers_def)

lemma queueMessage_active:
  assumes "dispatcherInv svc" and "sender m \<in> processingMessages svc"
  shows "started (queueMessage m svc) = started svc"
    and "workers (queueMessage m svc) = workers svc"
    and "pendingOf (queueMessage m svc) (sender m) = pendingOf svc (sender m) @ [m]"
  using assms by (auto simp: queueMessage_def Let_def pendingOf_def split: option.splits)

lemma queueMessage_idle:
  assumes "dispatcherInv svc" and "sender m \<notin> processingMessages svc"
  shows "started (queueMessage m svc) = started svc @ [sender m]"
    and "workers (queueMessage m svc) = workers svc @ [(sender m, m)]"
    and "pendingOf (queueMessage m svc) (sender m) = pendingOf svc (sender m) @ [m]"
proof -
  have q: "messageQueue svc (sender m) = None" using assms unfolding dispatcherInv_def by blast
  have f: "filter (\<lambda>w. fst w = sender m) (workers svc) = []"
    using assms by (force simp: dispatcherInv_def filter_empty_conv)
  show "started (queueMessage m svc) = started svc @ [sender m]"
    using assms(2) q by (simp add: queueMessage_def processQueue_def whileLoop_def Let_def)
  show "workers (queueMessage m svc) = workers svc @ [(sender m, m)]"
    using assms(2) q by (simp add: queueMessage_def processQueue_def whileLoop_def Let_def)
  show "pendingOf (queueMessage m svc) (sender m) = pendingOf svc (sender m) @ [m]"
    using assms(2) q f
    by (simp add: queueMessage_def processQueue_def whileLoop_def Let_def pendingOf_def)
qed

text \<open>
  C1, amended. In every state that the dispatcher reaches by arrivals of messages and
  settled handlings, at most one worker is active for a sender, and the active marker of a
  sender is set exactly while a worker is active for it. \<open>queueMessage\<close> appends the
  message to the pending messages of its sender, and it starts a new worker if and only
  if no worker is active for that sender; after it, exactly one worker is active for the
  sender, never zero and never two. A message that arrives while a worker is active
  starts no worker: it is left in the queue of the active worker.
\<close>

theorem one_worker_per_sender:
  "activeWorkers (run bn evs) s \<le> 1
   \<and> (s \<in> processingMessages (run bn evs)) = (activeWorkers (run bn evs) s = 1)
   \<and> pendingOf (queueMessage m (run bn evs)) (sender m)
       = pendingOf (run bn evs) (sender m) @ [m]
   \<and> started (queueMessage m (run bn evs))
       = (if activeWorkers (run bn evs) (sender m) = 0
          then started (run bn evs) @ [sender m] else started (run bn evs))
   \<and> activeWorkers (queueMessage m (run bn evs)) (sender m) = 1"
proof -
  let ?svc = "run bn evs"
  have inv: "dispatcherInv ?svc" by (rule inv_run)
  have inv': "dispatcherInv (queueMessage m ?svc)" using inv by (rule inv_queueMessage)
  have a: "\<And>s. activeWorkers ?svc s = (if s \<in> processingMessages ?svc then 1 else 0)"
    using activeWorkers_inv[OF inv] .
  have c1: "activeWorkers ?svc s \<le> 1" by (simp add: a)
  have c2: "(s \<in> processingMessages ?svc) = (activeWorkers ?svc s = 1)" by (simp add: a)
  have c3: "pendingOf (queueMessage m ?svc) (sender m) = pendingOf ?svc (sender m) @ [m]"
    using queueMessage_active(3)[OF inv] queueMessage_idle(3)[OF inv] by blast
  have c4: "started (queueMessage m ?svc)
       = (if activeWorkers ?svc (sender m) = 0 then started ?svc @ [sender m] else started ?svc)"
    using queueMessage_active(1)[OF inv, of m] queueMessage_idle(1)[OF inv, of m]
    by (simp add: a)
  have "sender m \<in> set (map fst (workers (queueMessage m ?svc)))"
    using queueMessage_active(2)[OF inv, of m] queueMessage_idle(2)[OF inv, of m] inv
    by (cases "sender m \<in> processingMessages ?svc") (auto simp: dispatcherInv_def)
  then have c5: "activeWorkers (queueMessage m ?svc) (sender m) = 1"
    using activeWorkers_inv[OF inv', of "sender m"] inv' by (simp add: dispatcherInv_def)
  show ?thesis by (intro conjI c1 c2 c3 c4 c5)
qed


text \<open>
  C1, as claimed, fails in its last part. After the first arrival the worker of \<open>u\<close> is
  handling its last message: it terminates when that handling returns (first line). A
  second message arriving at that moment starts no worker, since the active marker is
  set (second and third line); the worker, back from its \<open>await\<close>, finds the message in
  the queue and handles it itself (fourth and fifth line). When the awaited handling
  throws instead, the worker terminates and still no worker is started (last two lines).
\<close>

theorem late_arrival_counterexample:
  "workers (run ''bot''
        [Arrive \<lparr>sender = ''u'', senderName = ''U'', msgText = ''one'', isGroup = False\<rparr>,
         Settle 0 \<lparr>tCheck = 1000, tUpdate = 1000, bodyError = None, apologyError = None\<rparr>]) = []
   \<and> started (run ''bot''
        [Arrive \<lparr>sender = ''u'', senderName = ''U'', msgText = ''one'', isGroup = False\<rparr>]) = [''u'']
   \<and> started (run ''bot''
        [Arrive \<lparr>sender = ''u'', senderName = ''U'', msgText = ''one'', isGroup = False\<rparr>,
         Arrive \<lparr>sender = ''u'', senderName = ''U'', msgText = ''two'', isGroup = False\<rparr>]) = [''u'']
   \<and> started (run ''bot''
        [Arrive \<lparr>sender = ''u'', senderName = ''U'', msgText = ''one'', isGroup = False\<rparr>,
         Arrive \<lparr>sender = ''u'', senderName = ''U'', msgText = ''two'', isGroup = False\<rparr>,
         Settle 0 \<lparr>tCheck = 1000, tUpdate = 1000, bodyError = None, apologyError = None\<rparr>]) = [''u'']
   \<and> workers (run ''bot''
        [Arrive \<lparr>sender = ''u'', senderName = ''U'', msgText = ''one'', isGroup = False\<rparr>,
         Arrive \<lparr>sender = ''u'', senderName = ''U'', msgText = ''two'', isGroup = False\<rparr>,
         Settle 0 \<lparr>tCheck = 1000, tUpdate = 1000, bodyError = None, apologyError = None\<rparr>])
       = [(''u'', \<lparr>sender = ''u'', senderName = ''U'', msgText = ''two'', isGroup = False\<rparr>)]
   \<and> started (run ''bot''
        [Arrive \<lparr>sender = ''u'', senderName = ''U'', msgText = ''one'', isGroup = False\<rparr>,
         Arrive \<lparr>sender = ''u'', senderName = ''U'', msgText = ''two'', isGroup = False\<rparr>,
         Settle 0 \<lparr>tCheck = 1000, tUpdate = 1000,
           bodyError = Some ''WhatsApp client is not connected'',
           apologyError = Some ''WhatsApp client is not connected''\<rparr>]) = [''u'']
   \<and> workers (run ''bot''
        [Arrive \<lparr>sender = ''u'', senderName = ''U'', msgText = ''one'', isGroup = False\<rparr>,
         Arrive \<lparr>sender = ''u'', senderName = ''U'', msgText = ''two'', isGroup = False\<rparr>,
         Settle 0 \<lparr>tCheck = 1000, tUpdate = 1000,
           bodyError = Some ''WhatsApp client is not connected'',
           apologyError = Some ''WhatsApp client is not connected''\<rparr>]) = []"
  by (simp add: run_def queueMessage_def processQueue_def whileLoop_def finallyBlock_def settle_def
      handleSingleMessage_def isRateLimited_def updateRateLimit_def newService_def Let_def
      activeWorkers_def pendingOf_def)

theorem one_worker_per_sender_witness:
  "started (queueMessage \<lparr>sender = ''u'', senderName = ''U'', msgText = ''two'', isGroup = False\<rparr>
      (run ''bot'' [Arrive \<lparr>sender = ''u'', senderName = ''U'', msgText = ''one'', isGroup = False\<rparr>])) = [''u'']
   \<and> activeWorkers (queueMessage \<lparr>sender = ''u'', senderName = ''U'', msgText = ''two'', isGroup = False\<rparr>
      (run ''bot'' [Arrive \<lparr>sender = ''u'', senderName = ''U'', msgText = ''one'', isGroup = False\<rparr>])) ''u'' = 1
   \<and> pendingOf (queueMessage \<lparr>sender = ''u'', senderName = ''U'', msgText = ''two'', isGroup = False\<rparr>
      (run ''bot'' [Arrive \<lparr>sender = ''u'', senderName = ''U'', msgText = ''one'', isGroup = False\<rparr>])) ''u''
       = [\<lparr>sender = ''u'', senderName = ''U'', msgText = ''one'', isGroup = False\<rparr>,
          \<lparr>sender = ''u'', senderName = ''U'', msgText = ''two'', isGroup = False\<rparr>]"
proof -
  let ?m1 = "\<lparr>sender = ''u'', senderName = ''U'', msgText = ''one'', isGroup = False\<rparr>"
  let ?m2 = "\<lparr>sender = ''u'', senderName = ''U'', msgText = ''two'', isGroup = False\<rparr>"
  have e: "started (run ''bot'' [Arrive ?m1]) = [''u'']"
          "activeWorkers (run ''bot'' [Arrive ?m1]) ''u'' = 1"
          "pendingOf (run ''bot'' [Arrive ?m1]) ''u'' = [?m1]"
    by (simp_all add: run_def queueMessage_def processQueue_def whileLoop_def finallyBlock_def settle_def
      handleSingleMessage_def isRateLimited_def updateRateLimit_def newService_def Let_def
      activeWorkers_def pendingOf_def)
  from one_worker_per_sender[of "''bot''" "[Arrive ?m1]" "''u''" ?m2]
  show ?thesis by (simp add: e)
qed

text \<open>
  C2 does not hold in the source. \<open>_handleSingleMessage\<close> catches an error of its \<open>try\<close>
  block, but its \<open>catch\<close> block sends the apology with \<open>whatsappClient.sendMessage\<close>, which
  throws when the client is not connected. That error leaves \<open>_handleSingleMessage\<close>; the
  \<open>catch\<close> of \<open>_processQueue\<close> is outside the \<open>while\<close> loop, so the worker stops, and its
  \<open>finally\<close> block deletes the queue of the sender. Below, the second and third message
  of \<open>u\<close> are never handled. (Last conjunct: when the apology is sent, the worker goes on.)
\<close>

theorem worker_abort_discards_queue:
  "handled (run ''bot''
        [Arrive \<lparr>sender = ''u'', senderName = ''U'', msgText = ''one'', isGroup = False\<rparr>,
         Arrive \<lparr>sender = ''u'', senderName = ''U'', msgText = ''two'', isGroup = False\<rparr>,
         Arrive \<lparr>sender = ''u'', senderName = ''U'', msgText = ''three'', isGroup = False\<rparr>,
         Settle 0 \<lparr>tCheck = 1000, tUpdate = 1000,
           bodyError = Some ''WhatsApp client is not connected'',
           apologyError = Some ''WhatsApp client is not connected''\<rparr>])
     = [(\<lparr>sender = ''u'', senderName = ''U'', msgText = ''one'', isGroup = False\<rparr>,
         Inl ''WhatsApp client is not connected'')]
   \<and> workers (run ''bot''
        [Arrive \<lparr>sender = ''u'', senderName = ''U'', msgText = ''one'', isGroup = False\<rparr>,
         Arrive \<lparr>sender = ''u'', senderName = ''U'', msgText = ''two'', isGroup = False\<rparr>,
         Arrive \<lparr>sender = ''u'', senderName = ''U'', msgText = ''three'', isGroup = False\<rparr>,
         Settle 0 \<lparr>tCheck = 1000, tUpdate = 1000,
           bodyError = Some ''WhatsApp client is not connected'',
           apologyError = Some ''WhatsApp client is not connected''\<rparr>]) = []
   \<and> messageQueue (run ''bot''
        [Arrive \<lparr>sender = ''u'', senderName = ''U'', msgText = ''one'', isGroup = False\<rparr>,
         Arrive \<lparr>sender = ''u'', senderName = ''U'', msgText = ''two'', isGroup = False\<rparr>,
         Arrive \<lparr>sender = ''u'', senderName = ''U'', msgText = ''three'', isGroup = False\<rparr>,
         Settle 0 \<lparr>tCheck = 1000, tUpdate = 1000,
           bodyError = Some ''WhatsApp client is not connected'',
           apologyError = Some ''WhatsApp client is not connected''\<rparr>]) ''u'' = None
   \<and> handled (run ''bot''
        [Arrive \<lparr>sender = ''u'', senderName = ''U'', msgText = ''one'', isGroup = False\<rparr>,
         Arrive \<lparr>sender = ''u'', senderName = ''U'', msgText = ''two'', isGroup = False\<rparr>,
         Arrive \<lparr>sender = ''u'', senderName = ''U'', msgText = ''three'', isGroup = False\<rparr>,
         Settle 0 \<lparr>tCheck = 1000, tUpdate = 1000,
           bodyError = Some ''WhatsApp client is not connected'',
           apologyError = Some ''WhatsApp client is not connected''\<rparr>,
         Settle 0 \<lparr>tCheck = 1000, tUpdate = 1000, bodyError = None, apologyError = None\<rparr>,
         Settle 0 \<lparr>tCheck = 1000, tUpdate = 1000, bodyError = None, apologyError = None\<rparr>])
     = [(\<lparr>sender = ''u'', senderName = ''U'', msgText = ''one'', isGroup = False\<rparr>,
         Inl ''WhatsApp client is not connected'')]
   \<and> handled (run ''bot''
        [Arrive \<lparr>sender = ''u'', senderName = ''U'', msgText = ''one'', isGroup = False\<rparr>,
         Arrive \<lparr>sender = ''u'', senderName = ''U'', msgText = ''two'', isGroup = False\<rparr>,
         Arrive \<lparr>sender = ''u'', senderName = ''U'', msgText = ''three'', isGroup = False\<rparr>,
         Settle 0 \<lparr>tCheck = 1000, tUpdate = 1000, bodyError = Some ''Gemini request failed: Request timeout'', apologyError = None\<rparr>,
         Settle 0 \<lparr>tCheck = 1000, tUpdate = 1000, bodyError = None, apologyError = None\<rparr>,
         Settle 0 \<lparr>tCheck = 1000, tUpdate = 1000, bodyError = None, apologyError = None\<rparr>])
     = [(\<lparr>sender = ''u'', senderName = ''U'', msgText = ''one'', isGroup = False\<rparr>, Inr Apologised),
        (\<lparr>sender = ''u'', senderName = ''U'', msgText = ''two'', isGroup = False\<rparr>, Inr Replied),
        (\<lparr>sender = ''u'', senderName = ''U'', msgText = ''three'', isGroup = False\<rparr>, Inr Replied)]"
  by (simp add: run_def queueMessage_def processQueue_def whileLoop_def finallyBlock_def settle_def
      handleSingleMessage_def isRateLimited_def updateRateLimit_def newService_def Let_def
      activeWorkers_def pendingOf_def)

end
